theory Spec2Isabelle
  imports Main "HOL-Library.Sublist"
begin

section \<open>Constants and layout (model.go)\<close>

datatype viewMode = viewEndpoints | viewComponents | viewWebhooks

text \<open>Durations and instants are counted in nanoseconds, as Go's \<open>time.Duration\<close> is.\<close>

definition keySequenceThreshold :: int where
  "keySequenceThreshold = 500 * 1000000"

definition scrollHalfScreenLines :: int where
  "scrollHalfScreenLines = 21"

definition headerApproxLines :: int where
  "headerApproxLines = 2"

definition footerApproxLines :: int where
  "footerApproxLines = 4"

definition layoutBuffer :: int where
  "layoutBuffer = 2"

definition calculateContentHeight :: "int \<Rightarrow> int" where
  "calculateContentHeight totalHeight =
     max 1 (totalHeight - headerApproxLines - footerApproxLines - layoutBuffer)"

section \<open>Go run-time behaviour made explicit\<close>

text \<open>An index outside a slice panics; the panic is a value of the model.\<close>

datatype panic = IndexOutOfRange

definition index :: "'a list \<Rightarrow> int \<Rightarrow> panic + 'a" where
  "index xs i =
     (if 0 \<le> i \<and> i < int (length xs) then Inr (xs ! nat i) else Inl IndexOutOfRange)"

definition len :: "'a list \<Rightarrow> int" where
  "len xs = int (length xs)"

definition NL :: char where "NL = CHR 0x0A"
definition SQ :: char where "SQ = CHR 0x27"
definition DQ :: char where "DQ = CHR 0x22"
definition BS :: char where "BS = CHR 0x5C"

text \<open>\<open>strings.Count(s, "\n")\<close>: the number of newline bytes of \<open>s\<close>.\<close>

definition CountNL :: "string \<Rightarrow> int" where
  "CountNL s = int (length (filter (\<lambda>c. c = NL) s))"

text \<open>\<open>strings.Contains(s, substr)\<close>: \<open>substr\<close> occurs in \<open>s\<close> as a contiguous block.\<close>

definition Contains :: "string \<Rightarrow> string \<Rightarrow> bool" where
  "Contains s substr = sublist substr s"

text \<open>\<open>strings.ToLower\<close> on the ASCII letters; every other byte is kept.\<close>

definition lowerChar :: "char \<Rightarrow> char" where
  "lowerChar c =
     (let n = (of_char c :: nat) in if 65 \<le> n \<and> n \<le> 90 then char_of (n + 32) else c)"

definition ToLower :: "string \<Rightarrow> string" where
  "ToLower s = map lowerChar s"

fun Join :: "string list \<Rightarrow> string \<Rightarrow> string" where
  "Join [] sep = []"
| "Join [x] sep = x"
| "Join (x # y # ys) sep = x @ sep @ Join (y # ys) sep"

section \<open>The consumed document model (libopenapi)\<close>

text \<open>
  Only the fields that the program reads. A nil pointer is \<open>None\<close>; an ordered map is the
  list of its pairs in insertion order. \<open>Example\<close> and the members of \<open>Enum\<close> are kept as the
  text that \<open>%v\<close> prints for them. A schema proxy is the result of its \<open>Schema()\<close> call.
\<close>

datatype 'a dynamicValue = IsA 'a | IsB bool

datatype schema = MkSchema
  (Example: "string option")
  (Type: "string list")
  (Properties: "(string \<times> schema option) list option")
  (Items: "schema option dynamicValue option")
  (Enum: "string list")
  (Format: string)
  (AllOf: "schema option list")

record mediaType =
  Schema :: "schema option option"

record requestBody =
  Content :: "(string \<times> mediaType) list option"

record operation =
  Summary :: string
  Description :: string
  RequestBody :: "requestBody option"
  Security :: "(string \<times> string list) list list"

record securityScheme =
  schemeType :: string
  Scheme :: string
  In :: string
  Name :: string

record docComponents =
  SecuritySchemes :: "(string \<times> securityScheme) list option"

record server =
  URL :: string

record document =
  Servers :: "server list"
  Components :: "docComponents option"

section \<open>Items and the application state (model.go)\<close>

record webhook =
  name :: string  "method" :: string
  op :: operation
  folded :: bool

record endpoint =
  path :: string  "method" :: string
  op :: operation
  folded :: bool

record component =
  name :: string
  compType :: string
  description :: string
  details :: string
  folded :: bool

text \<open>The text input of the search line: its value and whether it has the focus.\<close>

record textinput =
  Value :: string
  focus :: bool

definition SetValue :: "string \<Rightarrow> textinput \<Rightarrow> textinput" where
  "SetValue s ti = ti\<lparr>Value := s\<rparr>"

definition Focus :: "textinput \<Rightarrow> textinput" where
  "Focus ti = ti\<lparr>focus := True\<rparr>"

definition Blur :: "textinput \<Rightarrow> textinput" where
  "Blur ti = ti\<lparr>focus := False\<rparr>"

record Model =
  doc :: document
  endpoints :: "endpoint list"
  components :: "component list"
  webhooks :: "webhook list"
  cursor :: int
  mode :: viewMode
  width :: int
  height :: int
  showHelp :: bool
  lastKey :: string
  lastKeyAt :: int
  scrollOffset :: int
  searchMode :: bool
  searchInput :: textinput
  filteredEndpoints :: "endpoint list"
  filteredComponents :: "component list"
  filteredWebhooks :: "webhook list"
  showCurl :: bool
  curlCommand :: string

text \<open>
  What the program takes from outside model.go: the two detail formatters of view.go, the
  editing step of the text-input widget, and the order in which the Go run time visits the
  keys of a map in a \<open>range\<close> loop.
\<close>

record extern =
  formatEndpointDetails :: "endpoint \<Rightarrow> string"
  formatWebhookDetails :: "webhook \<Rightarrow> string"
  inputUpdate :: "string \<Rightarrow> textinput \<Rightarrow> textinput"
  mapRange :: "(string \<rightharpoonup> string) \<Rightarrow> string list"

section \<open>Active collections and item heights\<close>

definition getActiveEndpoints :: "Model \<Rightarrow> endpoint list" where
  "getActiveEndpoints m =
     (if Value (searchInput m) \<noteq> [] then filteredEndpoints m else endpoints m)"

definition getActiveComponents :: "Model \<Rightarrow> component list" where
  "getActiveComponents m =
     (if Value (searchInput m) \<noteq> [] then filteredComponents m else components m)"

definition getActiveWebhooks :: "Model \<Rightarrow> webhook list" where
  "getActiveWebhooks m =
     (if Value (searchInput m) \<noteq> [] then filteredWebhooks m else webhooks m)"

definition getItemHeight :: "extern \<Rightarrow> Model \<Rightarrow> int \<Rightarrow> panic + int" where
  "getItemHeight ext m idx =
     (case mode m of
        viewEndpoints \<Rightarrow>
          (let eps = getActiveEndpoints m in
           if idx \<ge> len eps then Inr 1
           else (case index eps idx of
                   Inl p \<Rightarrow> Inl p
                 | Inr ep \<Rightarrow>
                     if endpoint.folded ep then Inr 1
                     else Inr (1 + CountNL (formatEndpointDetails ext ep) + 1)))
      | viewComponents \<Rightarrow>
          (let comps = getActiveComponents m in
           if idx \<ge> len comps then Inr 1
           else (case index comps idx of
                   Inl p \<Rightarrow> Inl p
                 | Inr cmp \<Rightarrow>
                     if component.folded cmp then Inr 1
                     else Inr (1 + CountNL (details cmp) + 1)))
      | viewWebhooks \<Rightarrow>
          (let hooks = getActiveWebhooks m in
           if idx \<ge> len hooks then Inr 1
           else (case index hooks idx of
                   Inl p \<Rightarrow> Inl p
                 | Inr hook \<Rightarrow>
                     if webhook.folded hook then Inr 1
                     else Inr (1 + CountNL (formatWebhookDetails ext hook) + 1))))"

definition getMaxItems :: "Model \<Rightarrow> int" where
  "getMaxItems m =
     (case mode m of
        viewEndpoints \<Rightarrow> len (getActiveEndpoints m) - 1
      | viewComponents \<Rightarrow> len (getActiveComponents m) - 1
      | viewWebhooks \<Rightarrow> len (getActiveWebhooks m) - 1)"

section \<open>The scroll recompute: ensureCursorVisible\<close>

text \<open>
  The inner loop \<open>for i := from; i <= m.cursor && i < len(items); i++\<close>, adding the height of
  item \<open>i\<close> to the running count \<open>acc\<close>.
\<close>

function linesLoop :: "extern \<Rightarrow> Model \<Rightarrow> int \<Rightarrow> int \<Rightarrow> int \<Rightarrow> panic + int" where
  "linesLoop ext m n i acc =
     (if i \<le> cursor m \<and> i < n then
        (case getItemHeight ext m i of
           Inl p \<Rightarrow> Inl p
         | Inr h \<Rightarrow> linesLoop ext m n (i + 1) (acc + h))
      else Inr acc)"
  by pat_completeness auto
termination
  by (relation "measure (\<lambda>(ext, m, n, i, acc). nat (n - i))") auto

declare linesLoop.simps [simp del]

text \<open>
  The outer loop \<open>for newScrollOffset := m.scrollOffset + 1; newScrollOffset <= m.cursor\<close>:
  the first offset whose lines fit, or \<open>None\<close> when the loop runs out.
\<close>

function scrollScan :: "extern \<Rightarrow> Model \<Rightarrow> int \<Rightarrow> int \<Rightarrow> int \<Rightarrow> panic + int option" where
  "scrollScan ext m n contentHeight newScrollOffset =
     (if newScrollOffset \<le> cursor m then
        (case linesLoop ext m n newScrollOffset (if newScrollOffset > 0 then 1 else 0) of
           Inl p \<Rightarrow> Inl p
         | Inr testLinesUsed \<Rightarrow>
             if testLinesUsed \<le> contentHeight then Inr (Some newScrollOffset)
             else scrollScan ext m n contentHeight (newScrollOffset + 1))
      else Inr None)"
  by pat_completeness auto
termination
  by (relation "measure (\<lambda>(ext, m, n, contentHeight, s). nat (cursor m + 1 - s))") auto

declare scrollScan.simps [simp del]

definition itemsLen :: "Model \<Rightarrow> int" where
  "itemsLen m =
     (case mode m of
        viewEndpoints \<Rightarrow> len (getActiveEndpoints m)
      | viewComponents \<Rightarrow> len (getActiveComponents m)
      | viewWebhooks \<Rightarrow> len (getActiveWebhooks m))"

definition clampScroll :: "Model \<Rightarrow> Model" where
  "clampScroll m = (if scrollOffset m < 0 then m\<lparr>scrollOffset := 0\<rparr> else m)"

definition ensureCursorVisible :: "extern \<Rightarrow> Model \<Rightarrow> panic + Model" where
  "ensureCursorVisible ext m =
     (let contentHeight = calculateContentHeight (height m) in
      if cursor m = 0 then Inr (m\<lparr>scrollOffset := 0\<rparr>)
      else if itemsLen m = 0 then Inr m
      else if cursor m < scrollOffset m then Inr (m\<lparr>scrollOffset := cursor m\<rparr>)
      else
        (case linesLoop ext m (itemsLen m) (scrollOffset m) 0 of
           Inl p \<Rightarrow> Inl p
         | Inr l \<Rightarrow>
             (let linesUsed = (if scrollOffset m > 0 then l + 1 else l) in
              if linesUsed > contentHeight then
                (case scrollScan ext m (itemsLen m) contentHeight (scrollOffset m + 1) of
                   Inl p \<Rightarrow> Inl p
                 | Inr None \<Rightarrow> Inr (clampScroll m)
                 | Inr (Some newScrollOffset) \<Rightarrow>
                     Inr (clampScroll (m\<lparr>scrollOffset := newScrollOffset\<rparr>)))
              else Inr (clampScroll m))))"

section \<open>The example-command generator\<close>

function generateExampleJSON :: "schema option \<Rightarrow> document \<Rightarrow> int \<Rightarrow> string" where
  "generateExampleJSON schema dc depth =
     (if depth > 3 then ''null''
      else
        (case schema of
           None \<Rightarrow> ''{}''
         | Some s \<Rightarrow>
             (case Example s of
                Some ex \<Rightarrow> ex
              | None \<Rightarrow>
                  (let byType =
                     (case Type s of
                        [] \<Rightarrow> None
                      | t # ts \<Rightarrow>
                          if t = ''object'' then
                            Some
                              (let props =
                                 (case Properties s of
                                    None \<Rightarrow> []
                                  | Some ps \<Rightarrow>
                                      map (\<lambda>pair.
                                             [DQ] @ fst pair @ [DQ] @ '': '' @
                                             (case snd pair of
                                                Some propSchema \<Rightarrow>
                                                  generateExampleJSON (Some propSchema) dc (depth + 1)
                                              | None \<Rightarrow> [DQ] @ ''example'' @ [DQ]))
                                          ps)
                               in if props \<noteq> [] then ''{ '' @ Join props '', '' @ '' }'' else ''{}'')
                          else if t = ''array'' then
                            Some
                              (case Items s of
                                 Some (IsA (Some itemSchema)) \<Rightarrow>
                                   ''[ '' @ generateExampleJSON (Some itemSchema) dc (depth + 1) @ '' ]''
                               | _ \<Rightarrow> ''[]'')
                          else if t = ''string'' then
                            Some
                              (case Enum s of
                                 e # es \<Rightarrow> [DQ] @ e @ [DQ]
                               | [] \<Rightarrow>
                                   if Format s = ''date'' then [DQ] @ ''2024-01-01'' @ [DQ]
                                   else if Format s = ''date-time''
                                     then [DQ] @ ''2024-01-01T00:00:00Z'' @ [DQ]
                                   else if Format s = ''email'' then [DQ] @ ''user@example.com'' @ [DQ]
                                   else [DQ] @ ''string'' @ [DQ])
                          else if t = ''number'' \<or> t = ''integer'' then Some ''0''
                          else if t = ''boolean'' then Some ''false''
                          else if t = ''null'' then Some ''null''
                          else None)
                   in case byType of
                        Some r \<Rightarrow> r
                      | None \<Rightarrow>
                          (let allProps =
                             concat
                               (map (\<lambda>schemaProxy.
                                       case schemaProxy of
                                         None \<Rightarrow> []
                                       | Some a \<Rightarrow>
                                           (let example = generateExampleJSON (Some a) dc (depth + 1)
                                            in if example \<noteq> ''{}'' \<and> example \<noteq> ''null''
                                               then [example] else []))
                                    (AllOf s))
                           in case allProps of [] \<Rightarrow> ''{}'' | a # as \<Rightarrow> a)))))"
  by pat_completeness auto
termination
  by (relation "measure (\<lambda>(schema, dc, depth). nat (4 - depth))") auto

declare generateExampleJSON.simps [simp del]

definition schemeHeader :: "securityScheme \<Rightarrow> (string \<rightharpoonup> string) \<Rightarrow> (string \<rightharpoonup> string)" where
  "schemeHeader scheme headers =
     (if schemeType scheme = ''http'' then
        (if Scheme scheme = ''bearer'' then headers(''Authorization'' \<mapsto> ''Bearer YOUR_TOKEN'')
         else if Scheme scheme = ''basic''
           then headers(''Authorization'' \<mapsto> ''Basic YOUR_CREDENTIALS'')
         else headers)
      else if schemeType scheme = ''apiKey'' then
        (if In scheme = ''header'' then headers(Name scheme \<mapsto> ''YOUR_API_KEY'') else headers)
      else headers)"

definition requirementHeader :: "document \<Rightarrow> string \<Rightarrow> (string \<rightharpoonup> string) \<Rightarrow> (string \<rightharpoonup> string)" where
  "requirementHeader dc secName headers =
     (case Components dc of
        None \<Rightarrow> headers
      | Some c \<Rightarrow>
          (case SecuritySchemes c of
             None \<Rightarrow> headers
           | Some schemes \<Rightarrow>
               (case map_of schemes secName of
                  None \<Rightarrow> headers
                | Some scheme \<Rightarrow> schemeHeader scheme headers)))"

text \<open>The map \<open>headers\<close> as it stands when the function starts to write the header lines.\<close>

definition curlHeaders :: "endpoint \<Rightarrow> document \<Rightarrow> (string \<rightharpoonup> string)" where
  "curlHeaders ep dc =
     fold (\<lambda>secReq h. fold (\<lambda>pair. requirementHeader dc (fst pair)) secReq h)
       (Security (endpoint.op ep))
       (if RequestBody (endpoint.op ep) \<noteq> None
        then Map.empty(''Content-Type'' \<mapsto> ''application/json'') else Map.empty)"

text \<open>
  \<open>order\<close> is the sequence in which \<open>for key, value := range headers\<close> visits the keys; the
  language leaves it to the run time. \<open>rangeOrder\<close> says which sequences the run time may
  choose for a given map.
\<close>

definition rangeOrder :: "(string \<rightharpoonup> string) \<Rightarrow> string list \<Rightarrow> bool" where
  "rangeOrder headers order = (distinct order \<and> set order = dom headers)"

definition generateCurl :: "string list \<Rightarrow> endpoint \<Rightarrow> document \<Rightarrow> string" where
  "generateCurl order ep dc =
     (let headers = curlHeaders ep dc;
          baseURL = (case Servers dc of [] \<Rightarrow> ''https://api.example.com'' | sv # svs \<Rightarrow> URL sv)
      in ''curl -X '' @ endpoint.method ep
         @ '' '' @ [SQ] @ baseURL @ path ep @ [SQ]
         @ concat
             (map (\<lambda>key. case headers key of
                            None \<Rightarrow> []
                          | Some v \<Rightarrow> '' '' @ [BS, NL] @ ''  -H '' @ [SQ] @ key @ '': '' @ v @ [SQ])
                  order)
         @ (case RequestBody (endpoint.op ep) of
              None \<Rightarrow> []
            | Some rb \<Rightarrow>
                (case Content rb of
                   None \<Rightarrow> []
                 | Some content \<Rightarrow>
                     (case map_of content ''application/json'' of
                        None \<Rightarrow> []
                      | Some jsonContent \<Rightarrow>
                          (let bodyJSON =
                             (case Schema jsonContent of
                                Some (Some sch) \<Rightarrow> generateExampleJSON (Some sch) dc 0
                              | _ \<Rightarrow> ''{}'')
                           in '' '' @ [BS, NL] @ ''  -d '' @ [SQ] @ bodyJSON @ [SQ])))))"

section \<open>The filter engine: filterItems\<close>

definition endpointMatches :: "string \<Rightarrow> endpoint \<Rightarrow> bool" where
  "endpointMatches query ep =
     (Contains (ToLower (path ep)) query \<or>
      Contains (ToLower (endpoint.method ep)) query \<or>
      (Summary (endpoint.op ep) \<noteq> [] \<and> Contains (ToLower (Summary (endpoint.op ep))) query) \<or>
      (Description (endpoint.op ep) \<noteq> [] \<and>
         Contains (ToLower (Description (endpoint.op ep))) query))"

definition componentMatches :: "string \<Rightarrow> component \<Rightarrow> bool" where
  "componentMatches query cmp =
     (Contains (ToLower (component.name cmp)) query \<or>
      Contains (ToLower (compType cmp)) query \<or>
      Contains (ToLower (description cmp)) query)"

definition webhookMatches :: "string \<Rightarrow> webhook \<Rightarrow> bool" where
  "webhookMatches query hook =
     (Contains (ToLower (webhook.name hook)) query \<or>
      Contains (ToLower (webhook.method hook)) query \<or>
      (Summary (webhook.op hook) \<noteq> [] \<and> Contains (ToLower (Summary (webhook.op hook))) query) \<or>
      (Description (webhook.op hook) \<noteq> [] \<and>
         Contains (ToLower (Description (webhook.op hook))) query))"

text \<open>The loop \<open>for _, x := range xs { if keep(x) { acc = append(acc, x) } }\<close>.\<close>

fun appendMatching :: "('a \<Rightarrow> bool) \<Rightarrow> 'a list \<Rightarrow> 'a list \<Rightarrow> 'a list" where
  "appendMatching keep [] acc = acc"
| "appendMatching keep (x # xs) acc = appendMatching keep xs (if keep x then acc @ [x] else acc)"

definition filterItems :: "Model \<Rightarrow> Model" where
  "filterItems m =
     (let query = ToLower (Value (searchInput m)) in
      if query = [] then
        m\<lparr>filteredEndpoints := [], filteredComponents := [], filteredWebhooks := []\<rparr>
      else
        m\<lparr>filteredEndpoints := appendMatching (endpointMatches query) (endpoints m) [],
          filteredComponents := appendMatching (componentMatches query) (components m) [],
          filteredWebhooks := appendMatching (webhookMatches query) (webhooks m) []\<rparr>)"

definition hasWebhooks :: "Model \<Rightarrow> bool" where
  "hasWebhooks m = (length (webhooks m) > 0)"

section \<open>The navigation state machine: Update\<close>

datatype msg = WindowSizeMsg int int | KeyMsg string | OtherMsg

datatype cmd = NoCmd | Quit | InputCmd

text \<open>
  \<open>now.Sub(t)\<close>: the difference of two instants, saturated to the range of a 64-bit
  duration. \<open>zeroTime\<close> is \<open>time.Time{}\<close>, counted from the Unix epoch.
\<close>

definition Sub :: "int \<Rightarrow> int \<Rightarrow> int" where
  "Sub t u = max (- (2 ^ 63)) (min (2 ^ 63 - 1) (t - u))"

definition zeroTime :: int where
  "zeroTime = - 62135596800 * 1000000000"

text \<open>
  The fold toggles. Each loop walks the master list, reads the item under the cursor anew in
  every round (which panics when the cursor is outside the active list), flips the first
  item of the same identity and stops; \<open>None\<close> when no item has that identity.
\<close>

fun toggleEndpoint :: "endpoint list \<Rightarrow> int \<Rightarrow> endpoint list \<Rightarrow> panic + endpoint list option" where
  "toggleEndpoint eps c [] = Inr None"
| "toggleEndpoint eps c (e # rest) =
     (case index eps c of
        Inl p \<Rightarrow> Inl p
      | Inr t \<Rightarrow>
          if path e = path t \<and> endpoint.method e = endpoint.method t
          then Inr (Some (e\<lparr>endpoint.folded := \<not> endpoint.folded e\<rparr> # rest))
          else (case toggleEndpoint eps c rest of
                  Inl p \<Rightarrow> Inl p
                | Inr None \<Rightarrow> Inr None
                | Inr (Some rest') \<Rightarrow> Inr (Some (e # rest'))))"

fun toggleComponent :: "component list \<Rightarrow> int \<Rightarrow> component list \<Rightarrow> panic + component list option" where
  "toggleComponent comps c [] = Inr None"
| "toggleComponent comps c (e # rest) =
     (case index comps c of
        Inl p \<Rightarrow> Inl p
      | Inr t \<Rightarrow>
          if component.name e = component.name t
          then Inr (Some (e\<lparr>component.folded := \<not> component.folded e\<rparr> # rest))
          else (case toggleComponent comps c rest of
                  Inl p \<Rightarrow> Inl p
                | Inr None \<Rightarrow> Inr None
                | Inr (Some rest') \<Rightarrow> Inr (Some (e # rest'))))"

fun toggleWebhook :: "webhook list \<Rightarrow> int \<Rightarrow> webhook list \<Rightarrow> panic + webhook list option" where
  "toggleWebhook hooks c [] = Inr None"
| "toggleWebhook hooks c (e # rest) =
     (case index hooks c of
        Inl p \<Rightarrow> Inl p
      | Inr t \<Rightarrow>
          if webhook.name e = webhook.name t \<and> webhook.method e = webhook.method t
          then Inr (Some (e\<lparr>webhook.folded := \<not> webhook.folded e\<rparr> # rest))
          else (case toggleWebhook hooks c rest of
                  Inl p \<Rightarrow> Inl p
                | Inr None \<Rightarrow> Inr None
                | Inr (Some rest') \<Rightarrow> Inr (Some (e # rest'))))"

definition toggleFold :: "Model \<Rightarrow> panic + Model" where
  "toggleFold m =
     (case mode m of
        viewEndpoints \<Rightarrow>
          (let eps = getActiveEndpoints m in
           if cursor m < len eps then
             (case toggleEndpoint eps (cursor m) (endpoints m) of
                Inl p \<Rightarrow> Inl p
              | Inr None \<Rightarrow> Inr m
              | Inr (Some eps') \<Rightarrow> Inr (filterItems (m\<lparr>endpoints := eps'\<rparr>)))
           else Inr m)
      | viewComponents \<Rightarrow>
          (let comps = getActiveComponents m in
           if cursor m < len comps then
             (case toggleComponent comps (cursor m) (components m) of
                Inl p \<Rightarrow> Inl p
              | Inr None \<Rightarrow> Inr m
              | Inr (Some comps') \<Rightarrow> Inr (filterItems (m\<lparr>components := comps'\<rparr>)))
           else Inr m)
      | viewWebhooks \<Rightarrow>
          (let hooks = getActiveWebhooks m in
           if cursor m < len hooks then
             (case toggleWebhook hooks (cursor m) (webhooks m) of
                Inl p \<Rightarrow> Inl p
              | Inr None \<Rightarrow> Inr m
              | Inr (Some hooks') \<Rightarrow> Inr (filterItems (m\<lparr>webhooks := hooks'\<rparr>)))
           else Inr m))"

text \<open>Key \<open>r\<close>: the example command for the endpoint or webhook under the cursor.\<close>

definition showCommand :: "extern \<Rightarrow> Model \<Rightarrow> panic + Model" where
  "showCommand ext m =
     (case mode m of
        viewEndpoints \<Rightarrow>
          (let eps = getActiveEndpoints m in
           if cursor m < len eps then
             (case index eps (cursor m) of
                Inl p \<Rightarrow> Inl p
              | Inr ep \<Rightarrow>
                  Inr (m\<lparr>curlCommand :=
                           generateCurl (mapRange ext (curlHeaders ep (doc m))) ep (doc m),
                         showCurl := True\<rparr>))
           else Inr m)
      | viewWebhooks \<Rightarrow>
          (let hooks = getActiveWebhooks m in
           if cursor m < len hooks then
             (case index hooks (cursor m) of
                Inl p \<Rightarrow> Inl p
              | Inr hook \<Rightarrow>
                  (let tempEp = \<lparr>path = webhook.name hook, method = webhook.method hook,
                                  op = webhook.op hook, folded = False\<rparr>
                   in Inr (m\<lparr>curlCommand :=
                                generateCurl (mapRange ext (curlHeaders tempEp (doc m))) tempEp (doc m),
                              showCurl := True\<rparr>)))
           else Inr m)
      | viewComponents \<Rightarrow> Inr m)"

definition cycleForward :: "Model \<Rightarrow> viewMode" where
  "cycleForward m =
     (case mode m of
        viewEndpoints \<Rightarrow> if hasWebhooks m then viewWebhooks else viewComponents
      | viewWebhooks \<Rightarrow> viewComponents
      | viewComponents \<Rightarrow> viewEndpoints)"

definition cycleBackward :: "Model \<Rightarrow> viewMode" where
  "cycleBackward m =
     (case mode m of
        viewEndpoints \<Rightarrow> viewComponents
      | viewWebhooks \<Rightarrow> viewEndpoints
      | viewComponents \<Rightarrow> if hasWebhooks m then viewWebhooks else viewEndpoints)"

text \<open>The first \<open>switch\<close> of the key branch: the keys while \<open>searchMode\<close> is set.\<close>

definition searchKey :: "extern \<Rightarrow> string \<Rightarrow> Model \<Rightarrow> panic + (Model \<times> cmd)" where
  "searchKey ext key m =
     (if key = ''esc'' then
        Inr ((filterItems (m\<lparr>searchMode := False, searchInput := SetValue [] (searchInput m)\<rparr>))
               \<lparr>cursor := 0, scrollOffset := 0\<rparr>, NoCmd)
      else if key = ''ctrl+c'' then Inr (m, Quit)
      else if key = ''enter'' then
        Inr (m\<lparr>searchMode := False, searchInput := Blur (searchInput m)\<rparr>, NoCmd)
      else
        Inr ((filterItems (m\<lparr>searchInput := inputUpdate ext key (searchInput m)\<rparr>))
               \<lparr>cursor := 0, scrollOffset := 0\<rparr>, InputCmd))"

text \<open>A branch that falls out of the \<open>switch\<close> reaches the final \<open>return m, nil\<close>.\<close>

definition returnNil :: "panic + Model \<Rightarrow> panic + (Model \<times> cmd)" where
  "returnNil r = (case r of Inl p \<Rightarrow> Inl p | Inr m \<Rightarrow> Inr (m, NoCmd))"

text \<open>The second \<open>switch\<close>: the keys while \<open>searchMode\<close> is not set; \<open>now\<close> is \<open>time.Now()\<close>.\<close>

definition browseKey :: "extern \<Rightarrow> int \<Rightarrow> string \<Rightarrow> Model \<Rightarrow> panic + (Model \<times> cmd)" where
  "browseKey ext now key m =
     (if key = ''q'' \<or> key = ''ctrl+c'' then
        (if showHelp m then Inr (m\<lparr>showHelp := False\<rparr>, NoCmd) else Inr (m, Quit))
      else if key = ''?'' then Inr (m\<lparr>showHelp := \<not> showHelp m\<rparr>, NoCmd)
      else if key = ''/'' then
        (if \<not> showHelp m then
           Inr (filterItems
                  (m\<lparr>searchMode := True, searchInput := SetValue [] (Focus (searchInput m))\<rparr>),
                NoCmd)
         else Inr (m, NoCmd))
      else if key = ''esc'' then
        (if showHelp m then Inr (m\<lparr>showHelp := False\<rparr>, NoCmd)
         else if searchMode m then
           Inr ((filterItems (m\<lparr>searchMode := False, searchInput := SetValue [] (searchInput m)\<rparr>))
                  \<lparr>cursor := 0, scrollOffset := 0\<rparr>, NoCmd)
         else if showCurl m then Inr (m\<lparr>showCurl := False\<rparr>, NoCmd)
         else Inr (m, NoCmd))
      else if key = ''r'' then
        (if \<not> showHelp m \<and> \<not> searchMode m then returnNil (showCommand ext m) else Inr (m, NoCmd))
      else if key = ''tab'' \<or> key = ''L'' then
        (if \<not> showHelp m
         then Inr (m\<lparr>mode := cycleForward m, cursor := 0, scrollOffset := 0\<rparr>, NoCmd)
         else Inr (m, NoCmd))
      else if key = ''shift+tab'' \<or> key = ''H'' then
        (if \<not> showHelp m
         then Inr (m\<lparr>mode := cycleBackward m, cursor := 0, scrollOffset := 0\<rparr>, NoCmd)
         else Inr (m, NoCmd))
      else if key = ''up'' \<or> key = ''k'' then
        (if \<not> showHelp m \<and> cursor m > 0
         then returnNil (ensureCursorVisible ext (m\<lparr>cursor := cursor m - 1\<rparr>))
         else Inr (m, NoCmd))
      else if key = ''down'' \<or> key = ''j'' then
        (if \<not> showHelp m then
           (if cursor m < getMaxItems m
            then returnNil (ensureCursorVisible ext (m\<lparr>cursor := cursor m + 1\<rparr>))
            else Inr (m, NoCmd))
         else Inr (m, NoCmd))
      else if key = ''ctrl+d'' then
        (if \<not> showHelp m then
           (let maxItems = getMaxItems m;
                newCursorPos = cursor m + scrollHalfScreenLines
            in returnNil (ensureCursorVisible ext
                 (if newCursorPos > maxItems then m\<lparr>cursor := maxItems\<rparr>
                  else m\<lparr>cursor := cursor m + scrollHalfScreenLines\<rparr>)))
         else Inr (m, NoCmd))
      else if key = ''ctrl+u'' then
        (if \<not> showHelp m then
           (let halfLines = max 1 (calculateContentHeight (height m) div 2)
            in returnNil (ensureCursorVisible ext
                 (if cursor m < halfLines then m\<lparr>cursor := 0\<rparr>
                  else m\<lparr>cursor := cursor m - halfLines\<rparr>)))
         else Inr (m, NoCmd))
      else if key = ''G'' then
        (if \<not> showHelp m then
           (let maxItems = getMaxItems m in
            if maxItems \<ge> 0 then returnNil (ensureCursorVisible ext (m\<lparr>cursor := maxItems\<rparr>))
            else Inr (m, NoCmd))
         else Inr (m, NoCmd))
      else if key = ''g'' then
        (if lastKey m = ''g'' \<and> Sub now (lastKeyAt m) < keySequenceThreshold then
           (case (if \<not> showHelp m then ensureCursorVisible ext (m\<lparr>cursor := 0\<rparr>) else Inr m) of
              Inl p \<Rightarrow> Inl p
            | Inr m' \<Rightarrow> Inr (m'\<lparr>lastKey := [], lastKeyAt := zeroTime\<rparr>, NoCmd))
         else Inr (m\<lparr>lastKey := ''g'', lastKeyAt := now\<rparr>, NoCmd))
      else if key = ''enter'' \<or> key = '' '' then
        (if \<not> showHelp m \<and> \<not> searchMode m then returnNil (toggleFold m) else Inr (m, NoCmd))
      else Inr (m, NoCmd))"

definition Update :: "extern \<Rightarrow> int \<Rightarrow> msg \<Rightarrow> Model \<Rightarrow> panic + (Model \<times> cmd)" where
  "Update ext now ms m =
     (case ms of
        WindowSizeMsg w h \<Rightarrow> Inr (m\<lparr>width := w, height := h\<rparr>, NoCmd)
      | KeyMsg key \<Rightarrow> if searchMode m then searchKey ext key m else browseKey ext now key m
      | OtherMsg \<Rightarrow> Inr (m, NoCmd))"

definition NewModel :: "document \<Rightarrow> endpoint list \<Rightarrow> component list \<Rightarrow> webhook list \<Rightarrow> Model" where
  "NewModel dc eps comps hooks =
     \<lparr>doc = dc, endpoints = eps, components = comps, webhooks = hooks,
      cursor = 0, mode = viewEndpoints, width = 80, height = 24, showHelp = False,
      lastKey = [], lastKeyAt = zeroTime, scrollOffset = 0, searchMode = False,
      searchInput = \<lparr>Value = [], focus = False\<rparr>,
      filteredEndpoints = [], filteredComponents = [], filteredWebhooks = [],
      showCurl = False, curlCommand = []\<rparr>"

text \<open>
  A session: the events are processed one after the other, each with the instant at which
  it arrives; a panic ends the session, and so does the quit command.
\<close>

fun run :: "extern \<Rightarrow> (int \<times> msg) list \<Rightarrow> Model \<Rightarrow> panic + Model" where
  "run ext [] m = Inr m"
| "run ext (ev # evs) m =
     (case Update ext (fst ev) (snd ev) m of
        Inl p \<Rightarrow> Inl p
      | Inr mc \<Rightarrow> if snd mc = Quit then Inr (fst mc) else run ext evs (fst mc))"

section \<open>Sample documents and states\<close>

definition demoOp :: operation where
  "demoOp = \<lparr>Summary = [], Description = [], RequestBody = None, Security = []\<rparr>"

definition demoEndpoint :: "string \<Rightarrow> endpoint" where
  "demoEndpoint p = \<lparr>path = p, method = ''GET'', op = demoOp, folded = True\<rparr>"

text \<open>A stand-in for the text-input widget that appends the key to the value.\<close>

definition demoExt :: extern where
  "demoExt = \<lparr>formatEndpointDetails = (\<lambda>ep. []), formatWebhookDetails = (\<lambda>hook. []),
     inputUpdate = (\<lambda>key ti. ti\<lparr>Value := Value ti @ key\<rparr>), mapRange = (\<lambda>h. [])\<rparr>"

definition demoDoc :: document where
  "demoDoc = \<lparr>Servers = [], Components = None\<rparr>"

definition demoModel :: Model where
  "demoModel =
     NewModel demoDoc (map demoEndpoint [''/users'', ''/pets'', ''/orders'', ''/items'']) [] []"

definition demoSearching :: Model where
  "demoSearching = demoModel\<lparr>searchMode := True, cursor := 3, scrollOffset := 1\<rparr>"

text \<open>The cursor and the scroll offset of the state that an event leaves.\<close>

definition cursorAndScroll :: "panic + (Model \<times> cmd) \<Rightarrow> panic + (int \<times> int)" where
  "cursorAndScroll r = map_sum id (\<lambda>mc. (cursor (fst mc), scrollOffset (fst mc))) r"

text \<open>The state that key \<open>r\<close> leaves when pressed in \<open>demoModel\<close>: the command overlay is open.\<close>

definition demoCurlOpen :: Model where
  "demoCurlOpen =
     demoModel\<lparr>curlCommand := generateCurl [] (demoEndpoint ''/users'') demoDoc, showCurl := True\<rparr>"

text \<open>The cursor and the scroll offset at the end of a session.\<close>

definition position :: "panic + Model \<Rightarrow> panic + (int \<times> int)" where
  "position r = map_sum id (\<lambda>m. (cursor m, scrollOffset m)) r"

text \<open>An event keeps the gesture memory: the key and the instant it holds are unchanged.\<close>

definition keepsGesture :: "Model \<Rightarrow> panic + (Model \<times> cmd) \<Rightarrow> bool" where
  "keepsGesture m r =
     (case r of Inl p \<Rightarrow> True
      | Inr mc \<Rightarrow> lastKey (fst mc) = lastKey m \<and> lastKeyAt (fst mc) = lastKeyAt m)"

text \<open>The cursor on item 3, and a press of \<open>g\<close> remembered at instant 1000.\<close>

definition demoArmed :: Model where
  "demoArmed = demoModel\<lparr>cursor := 3, lastKey := ''g'', lastKeyAt := 1000\<rparr>"

text \<open>
  The content of the three master collections in their order, the fold flags left out: what
  the extractor delivered.
\<close>

definition masterContent ::
  "Model \<Rightarrow> (string \<times> string \<times> operation) list \<times> (string \<times> string \<times> string \<times> string) list
            \<times> (string \<times> string \<times> operation) list" where
  "masterContent m =
     (map (\<lambda>e. (path e, endpoint.method e, endpoint.op e)) (endpoints m),
      map (\<lambda>c. (component.name c, compType c, description c, details c)) (components m),
      map (\<lambda>h. (webhook.name h, webhook.method h, webhook.op h)) (webhooks m))"

definition keepsMaster :: "Model \<Rightarrow> panic + (Model \<times> cmd) \<Rightarrow> bool" where
  "keepsMaster m r =
     (case r of Inl p \<Rightarrow> True | Inr mc \<Rightarrow> masterContent (fst mc) = masterContent m)"

text \<open>
  The state after the query \<open>p\<close> was typed and confirmed and the one match, \<open>/pets\<close>, was
  unfolded in the filtered view.
\<close>

definition demoUnfolded :: Model where
  "demoUnfolded =
     demoModel\<lparr>endpoints := [demoEndpoint ''/users'', (demoEndpoint ''/pets'')\<lparr>endpoint.folded := False\<rparr>,
                               demoEndpoint ''/orders'', demoEndpoint ''/items''],
               searchInput := \<lparr>Value = ''p'', focus = False\<rparr>,
               filteredEndpoints := [(demoEndpoint ''/pets'')\<lparr>endpoint.folded := False\<rparr>]\<rparr>"

text \<open>
  An operation with a JSON request body, secured by a bearer token, in a document that
  declares the security scheme and one server.
\<close>

definition demoBodySchema :: schema where
  "demoBodySchema =
     MkSchema None [''object'']
       (Some [(''name'', Some (MkSchema None [''string''] None None [] [] []))])
       None [] [] []"

definition demoSecuredOp :: operation where
  "demoSecuredOp =
     \<lparr>Summary = ''Create a user'', Description = [],
      RequestBody =
        Some \<lparr>Content = Some [(''application/json'', \<lparr>Schema = Some (Some demoBodySchema)\<rparr>)]\<rparr>,
      Security = [[(''bearerAuth'', [])]]\<rparr>"

definition demoPost :: endpoint where
  "demoPost = \<lparr>path = ''/users'', method = ''POST'', op = demoSecuredOp, folded = True\<rparr>"

definition demoSecuredDoc :: document where
  "demoSecuredDoc =
     \<lparr>Servers = [\<lparr>URL = ''https://api.test''\<rparr>],
      Components =
        Some \<lparr>SecuritySchemes =
                Some [(''bearerAuth'',
                       \<lparr>schemeType = ''http'', Scheme = ''bearer'', In = [], Name = []\<rparr>)]\<rparr>\<rparr>"

section \<open>The scroll bound in the words of the specification\<close>

text \<open>
  The rendered height of each item of the active collection: 1 line if folded, otherwise the
  main line, the detail lines and one more line.
\<close>

definition renderedHeights :: "extern \<Rightarrow> Model \<Rightarrow> int list" where
  "renderedHeights ext m =
     (case mode m of
        viewEndpoints \<Rightarrow>
          map (\<lambda>ep. if endpoint.folded ep then 1
                     else 1 + CountNL (formatEndpointDetails ext ep) + 1)
              (getActiveEndpoints m)
      | viewComponents \<Rightarrow>
          map (\<lambda>c. if component.folded c then 1 else 1 + CountNL (details c) + 1)
              (getActiveComponents m)
      | viewWebhooks \<Rightarrow>
          map (\<lambda>hook. if webhook.folded hook then 1
                       else 1 + CountNL (formatWebhookDetails ext hook) + 1)
              (getActiveWebhooks m))"

text \<open>
  The cumulative height of the items \<open>off..c\<close>, plus the line of the indicator above when
  \<open>off > 0\<close>.
\<close>

definition windowLines :: "int list \<Rightarrow> int \<Rightarrow> int \<Rightarrow> int" where
  "windowLines hs off c =
     sum_list (take (nat (c + 1 - off)) (drop (nat off) hs)) + (if off > 0 then 1 else 0)"

definition fits :: "extern \<Rightarrow> Model \<Rightarrow> int \<Rightarrow> bool" where
  "fits ext m off =
     (windowLines (renderedHeights ext m) off (cursor m) \<le> calculateContentHeight (height m))"



text \<open>
  The scenario of the tall item: eight endpoints, the one at index 5 unfolded; the detail
  text of an endpoint has 8 newlines, so an unfolded endpoint is 10 lines tall.
\<close>

definition tallExt :: extern where
  "tallExt = demoExt\<lparr>formatEndpointDetails := (\<lambda>ep. replicate 8 NL)\<rparr>"

definition demoEight :: Model where
  "demoEight = NewModel demoDoc (map (\<lambda>c. demoEndpoint [CHR ''/'', c]) ''abcdefgh'') [] []"

text \<open>The cursor on the unfolded item 5, the scroll offset 0, in a terminal of \<open>h\<close> lines.\<close>

definition demoTall :: "int \<Rightarrow> Model" where
  "demoTall h =
     demoEight\<lparr>endpoints := (endpoints demoEight)
                   [5 := (demoEndpoint ''/f'')\<lparr>endpoint.folded := False\<rparr>],
               height := h, cursor := 5\<rparr>"

section \<open>The invariants of the navigation state\<close>

text \<open>
  The scroll offset is between 0 and the cursor, and the cursor points into the active
  collection, or is 0 when that collection is empty.
\<close>

definition cursorInv :: "Model \<Rightarrow> bool" where
  "cursorInv m =
     (0 \<le> scrollOffset m \<and> scrollOffset m \<le> cursor m
      \<and> (cursor m < itemsLen m \<or> (itemsLen m = 0 \<and> cursor m = 0)))"

text \<open>While a query is set, the filtered collections are the matches of the query.\<close>

definition filteredInv :: "Model \<Rightarrow> bool" where
  "filteredInv m =
     (Value (searchInput m) = []
      \<or> (filteredEndpoints m
            = filter (endpointMatches (ToLower (Value (searchInput m)))) (endpoints m)
         \<and> filteredComponents m
            = filter (componentMatches (ToLower (Value (searchInput m)))) (components m)
         \<and> filteredWebhooks m
            = filter (webhookMatches (ToLower (Value (searchInput m)))) (webhooks m)))"

definition keepsInv :: "panic + (Model \<times> cmd) \<Rightarrow> bool" where
  "keepsInv r =
     (case r of Inl p \<Rightarrow> False | Inr mc \<Rightarrow> cursorInv (fst mc) \<and> filteredInv (fst mc))"

section \<open>Properties of the filter engine and of the state machine\<close>

lemma appendMatching_filter: "appendMatching keep xs acc = acc @ filter keep xs"
  by (induction xs arbitrary: acc) simp_all

lemma filterItems_frame:
  "cursor (filterItems m) = cursor m" "scrollOffset (filterItems m) = scrollOffset m"
  "searchInput (filterItems m) = searchInput m" "endpoints (filterItems m) = endpoints m"
  "components (filterItems m) = components m" "webhooks (filterItems m) = webhooks m"
  "mode (filterItems m) = mode m" "searchMode (filterItems m) = searchMode m"
  "showHelp (filterItems m) = showHelp m" "showCurl (filterItems m) = showCurl m"
  "height (filterItems m) = height m" "lastKey (filterItems m) = lastKey m"
  "lastKeyAt (filterItems m) = lastKeyAt m"
  by (simp_all add: filterItems_def Let_def)

lemma filterItems_filtered:
  "filteredEndpoints (filterItems m) =
     (if ToLower (Value (searchInput m)) = [] then []
      else filter (endpointMatches (ToLower (Value (searchInput m)))) (endpoints m))"
  "filteredComponents (filterItems m) =
     (if ToLower (Value (searchInput m)) = [] then []
      else filter (componentMatches (ToLower (Value (searchInput m)))) (components m))"
  "filteredWebhooks (filterItems m) =
     (if ToLower (Value (searchInput m)) = [] then []
      else filter (webhookMatches (ToLower (Value (searchInput m)))) (webhooks m))"
  by (simp_all add: filterItems_def Let_def appendMatching_filter)



subsection \<open>Committing, clearing, switching the view\<close>

text \<open>
  C7, as the claim states it, fails: after three moves down, opening the search line and
  confirming it at once leaves the cursor on item 3.
\<close>

theorem commit_keeps_cursor_counterexample:
  "position (run demoExt [(0, KeyMsg ''j''), (1, KeyMsg ''j''), (2, KeyMsg ''j''),
                          (3, KeyMsg ''/'')] demoModel) = Inr (3, 0)
   \<and> position (run demoExt [(0, KeyMsg ''j''), (1, KeyMsg ''j''), (2, KeyMsg ''j''),
                            (3, KeyMsg ''/''), (4, KeyMsg ''enter'')] demoModel) = Inr (3, 0)"
  by code_simp

text \<open>
  C7, amended. Confirming a search only leaves search mode and takes the focus from the
  text input: query, cursor and scroll offset stay as they are. Clearing a search (escape
  in search mode) empties the query and sets cursor and scroll offset to 0. Switching the
  view mode (tab, L, shift+tab or H while the help overlay is closed) sets cursor and scroll
  offset to 0 and keeps the query.
\<close>

theorem cursor_reset_on_clear_and_switch:
  "(searchMode m \<and> key = ''enter'' \<longrightarrow>
      Update ext now (KeyMsg key) m
        = Inr (m\<lparr>searchMode := False, searchInput := Blur (searchInput m)\<rparr>, NoCmd))
   \<and> (searchMode m \<and> key = ''esc'' \<longrightarrow>
      (\<exists>m'. Update ext now (KeyMsg key) m = Inr (m', NoCmd)
         \<and> cursor m' = 0 \<and> scrollOffset m' = 0 \<and> Value (searchInput m') = [] \<and> \<not> searchMode m'))
   \<and> (\<not> searchMode m \<and> \<not> showHelp m \<and> key \<in> {''tab'', ''L'', ''shift+tab'', ''H''} \<longrightarrow>
      (\<exists>m'. Update ext now (KeyMsg key) m = Inr (m', NoCmd)
         \<and> cursor m' = 0 \<and> scrollOffset m' = 0
         \<and> mode m' = (if key \<in> {''tab'', ''L''} then cycleForward m else cycleBackward m)
         \<and> searchInput m' = searchInput m))"
  by (auto simp add: Update_def searchKey_def browseKey_def filterItems_frame SetValue_def)

theorem cursor_reset_on_clear_and_switch_witness:
  "searchMode demoSearching \<and> cursor demoSearching = 3
   \<and> cursorAndScroll (Update demoExt 0 (KeyMsg ''enter'') demoSearching) = Inr (3, 1)
   \<and> cursorAndScroll (Update demoExt 0 (KeyMsg ''esc'') demoSearching) = Inr (0, 0)
   \<and> \<not> searchMode (demoModel\<lparr>cursor := 2\<rparr>) \<and> \<not> showHelp (demoModel\<lparr>cursor := 2\<rparr>)
   \<and> ''tab'' \<in> {''tab'', ''L'', ''shift+tab'', ''H''}
   \<and> cursorAndScroll (Update demoExt 0 (KeyMsg ''tab'') (demoModel\<lparr>cursor := 2\<rparr>)) = Inr (0, 0)"
proof -
  have s: "searchMode demoSearching" "cursor demoSearching = 3" "scrollOffset demoSearching = 1"
    by (simp_all add: demoSearching_def)
  have b: "\<not> searchMode (demoModel\<lparr>cursor := 2\<rparr>)" "\<not> showHelp (demoModel\<lparr>cursor := 2\<rparr>)"
    by (simp_all add: demoModel_def NewModel_def)
  note a1 = cursor_reset_on_clear_and_switch [of demoSearching "''enter''" demoExt 0]
  note a2 = cursor_reset_on_clear_and_switch [of demoSearching "''esc''" demoExt 0]
  note a3 = cursor_reset_on_clear_and_switch [of "demoModel\<lparr>cursor := 2\<rparr>" "''tab''" demoExt 0]
  have c1: "cursorAndScroll (Update demoExt 0 (KeyMsg ''enter'') demoSearching) = Inr (3, 1)"
    using a1 s by (simp add: cursorAndScroll_def)
  have c2: "cursorAndScroll (Update demoExt 0 (KeyMsg ''esc'') demoSearching) = Inr (0, 0)"
    using a2 s by (auto simp add: cursorAndScroll_def)
  have c3: "cursorAndScroll (Update demoExt 0 (KeyMsg ''tab'') (demoModel\<lparr>cursor := 2\<rparr>)) = Inr (0, 0)"
    using a3 b by (auto simp add: cursorAndScroll_def)
  show ?thesis using s b c1 c2 c3 by simp
qed

subsection \<open>The overlays\<close>

lemma demoCurlOpen_reached: "run demoExt [(0, KeyMsg ''r'')] demoModel = Inr demoCurlOpen"
  by (simp add: Update_def browseKey_def demoModel_def NewModel_def showCommand_def returnNil_def
        getActiveEndpoints_def len_def index_def demoCurlOpen_def demoExt_def curlHeaders_def
        demoEndpoint_def demoOp_def)

text \<open>
  While the help overlay is open (outside search mode), no key moves the cursor, scrolls,
  switches the view or changes a master collection, and the quit keys close the overlay.
\<close>

lemma help_overlay_blocks_keys:
  assumes "showHelp m" and "\<not> searchMode m"
  shows "\<exists>m' c. Update ext now (KeyMsg key) m = Inr (m', c)
     \<and> cursor m' = cursor m \<and> scrollOffset m' = scrollOffset m \<and> mode m' = mode m
     \<and> endpoints m' = endpoints m \<and> components m' = components m \<and> webhooks m' = webhooks m"
  using assms by (simp add: Update_def browseKey_def)

lemma quit_closes_help:
  "showHelp m \<Longrightarrow> \<not> searchMode m \<Longrightarrow> key = ''q'' \<or> key = ''ctrl+c'' \<Longrightarrow>
   Update ext now (KeyMsg key) m = Inr (m\<lparr>showHelp := False\<rparr>, NoCmd)"
  by (auto simp add: Update_def browseKey_def)

text \<open>
  C4. The code at the failing input: with the command overlay open over \<open>demoModel\<close>, key
  \<open>j\<close> moves the cursor to item 1, \<open>tab\<close> switches to the components view and \<open>enter\<close>
  unfolds the first endpoint; the overlay stays open each time.
\<close>

theorem navigation_under_command_overlay:
  "showCurl demoCurlOpen \<and> \<not> showHelp demoCurlOpen
   \<and> cursor demoCurlOpen = 0 \<and> mode demoCurlOpen = viewEndpoints
   \<and> map endpoint.folded (endpoints demoCurlOpen) = [True, True, True, True]
   \<and> map_sum id (\<lambda>m. (cursor m, showCurl m))
        (run demoExt [(1, KeyMsg ''j'')] demoCurlOpen) = Inr (1, True)
   \<and> map_sum id (\<lambda>m. (mode m, showCurl m))
        (run demoExt [(1, KeyMsg ''tab'')] demoCurlOpen) = Inr (viewComponents, True)
   \<and> map_sum id (\<lambda>m. (map endpoint.folded (endpoints m), showCurl m))
        (run demoExt [(1, KeyMsg ''enter'')] demoCurlOpen) = Inr ([False, True, True, True], True)"
  by code_simp

text \<open>
  C6. The code at the failing input: with the command overlay open, key \<open>q\<close> returns the
  quit command and leaves the overlay open.
\<close>

theorem quit_with_command_overlay:
  "showCurl demoCurlOpen \<and> \<not> showHelp demoCurlOpen \<and> \<not> searchMode demoCurlOpen
   \<and> Update demoExt 1 (KeyMsg ''q'') demoCurlOpen = Inr (demoCurlOpen, Quit)"
  by (simp add: Update_def browseKey_def demoCurlOpen_def demoModel_def NewModel_def)

subsection \<open>The cursor on an empty active collection\<close>

text \<open>
  C3. The code at the failing input: the query \<open>z\<close> matches none of the four endpoints, so
  the active collection is empty and the cursor is 0; half a page down then sets the cursor
  to -1, above the scroll offset 0, and the next fold toggle reads the item at index -1.
\<close>

theorem half_page_down_on_empty_list:
  "map_sum id (\<lambda>m. (cursor m, scrollOffset m, len (getActiveEndpoints m)))
      (run demoExt [(0, KeyMsg ''/''), (1, KeyMsg ''z''), (2, KeyMsg ''enter'')] demoModel)
     = Inr (0, 0, 0)
   \<and> map_sum id (\<lambda>m. (cursor m, scrollOffset m, len (getActiveEndpoints m)))
      (run demoExt [(0, KeyMsg ''/''), (1, KeyMsg ''z''), (2, KeyMsg ''enter''),
                    (3, KeyMsg ''ctrl+d'')] demoModel)
     = Inr (- 1, 0, 0)
   \<and> run demoExt [(0, KeyMsg ''/''), (1, KeyMsg ''z''), (2, KeyMsg ''enter''),
                  (3, KeyMsg ''ctrl+d''), (4, KeyMsg ''enter'')] demoModel
     = Inl IndexOutOfRange"
  by code_simp

subsection \<open>What the recompute and the item handlers leave alone\<close>

lemma ensureCursorVisible_frame:
  "ensureCursorVisible ext m = Inr m' \<Longrightarrow> m' = m\<lparr>scrollOffset := scrollOffset m'\<rparr>"
  by (auto simp add: ensureCursorVisible_def Let_def clampScroll_def
           split: if_splits sum.splits option.splits)

lemma ensureCursorVisible_top:
  "ensureCursorVisible ext (m\<lparr>cursor := 0\<rparr>) = Inr (m\<lparr>cursor := 0, scrollOffset := 0\<rparr>)"
  by (simp add: ensureCursorVisible_def)

lemma ensureCursorVisible_gesture:
  "ensureCursorVisible ext m = Inr m' \<Longrightarrow> lastKey m' = lastKey m \<and> lastKeyAt m' = lastKeyAt m"
  by (drule ensureCursorVisible_frame, erule ssubst) simp

lemma toggleFold_gesture:
  "toggleFold m = Inr m' \<Longrightarrow> lastKey m' = lastKey m \<and> lastKeyAt m' = lastKeyAt m"
  by (auto simp add: toggleFold_def Let_def filterItems_frame
           split: viewMode.splits if_splits sum.splits option.splits)

lemma showCommand_gesture:
  "showCommand ext m = Inr m' \<Longrightarrow> lastKey m' = lastKey m \<and> lastKeyAt m' = lastKeyAt m"
  by (auto simp add: showCommand_def Let_def
           split: viewMode.splits if_splits sum.splits)

subsection \<open>The gesture detector\<close>

lemma Sub_less_threshold: "Sub now t < keySequenceThreshold \<longleftrightarrow> now - t < 500000000"
  by (auto simp add: Sub_def keySequenceThreshold_def)

lemma keepsGesture_Inr:
  "keepsGesture m (Inr (m', c)) \<longleftrightarrow> lastKey m' = lastKey m \<and> lastKeyAt m' = lastKeyAt m"
  by (simp add: keepsGesture_def)

lemma keepsGesture_ensure:
  "lastKey m1 = lastKey m \<Longrightarrow> lastKeyAt m1 = lastKeyAt m \<Longrightarrow>
   keepsGesture m (returnNil (ensureCursorVisible ext m1))"
  by (auto simp add: keepsGesture_def returnNil_def split: sum.splits
           dest: ensureCursorVisible_gesture)

lemma keepsGesture_toggle: "keepsGesture m (returnNil (toggleFold m))"
  by (auto simp add: keepsGesture_def returnNil_def split: sum.splits dest: toggleFold_gesture)

lemma keepsGesture_command: "keepsGesture m (returnNil (showCommand ext m))"
  by (auto simp add: keepsGesture_def returnNil_def split: sum.splits dest: showCommand_gesture)

lemma other_keys_keep_gesture:
  assumes "\<not> searchMode m" and "key \<noteq> ''g''"
  shows "keepsGesture m (Update ext now (KeyMsg key) m)"
  using assms
  by (simp add: Update_def browseKey_def Let_def keepsGesture_Inr keepsGesture_ensure
        keepsGesture_toggle keepsGesture_command filterItems_frame)

lemma search_keys_keep_gesture:
  assumes "searchMode m"
  shows "keepsGesture m (Update ext now (KeyMsg key) m)"
  using assms
  by (simp add: Update_def searchKey_def keepsGesture_Inr filterItems_frame)

text \<open>
  C5, as the claim states it, fails: \<open>g\<close>, then \<open>j\<close> 100 ms later, then \<open>g\<close> another 100 ms
  later. The key in between moves the cursor from 2 to 3, and the second \<open>g\<close> still jumps to
  the top.
\<close>

theorem gesture_survives_other_key_counterexample:
  "position (run demoExt [(0, KeyMsg ''j''), (1, KeyMsg ''j''), (2, KeyMsg ''g''),
                          (100000002, KeyMsg ''j'')] demoModel) = Inr (3, 0)
   \<and> position (run demoExt [(0, KeyMsg ''j''), (1, KeyMsg ''j''), (2, KeyMsg ''g''),
                            (100000002, KeyMsg ''j''), (200000002, KeyMsg ''g'')] demoModel)
       = Inr (0, 0)"
  by code_simp

text \<open>
  C5, amended. Outside search mode, a press of \<open>g\<close> jumps to the top (cursor 0, scroll
  offset 0, help overlay closed) exactly when the gesture memory holds a press of \<open>g\<close> that
  is less than 500 ms old, and then the memory is emptied, so that a third press only
  starts a new gesture. Any other press of \<open>g\<close> changes nothing but the memory, which then
  holds this press. The memory is written by presses of \<open>g\<close> only: every other key, and
  every key typed in search mode, leaves it as it is, so keys pressed between the two
  presses of \<open>g\<close> do not cancel the gesture.
\<close>

theorem double_press_jumps_to_top:
  "(\<not> searchMode m \<and> \<not> showHelp m \<and> lastKey m = ''g'' \<and> now - lastKeyAt m < 500000000 \<longrightarrow>
      Update ext now (KeyMsg ''g'') m
        = Inr (m\<lparr>cursor := 0, scrollOffset := 0, lastKey := [], lastKeyAt := zeroTime\<rparr>, NoCmd))
   \<and> (\<not> searchMode m \<and> \<not> (lastKey m = ''g'' \<and> now - lastKeyAt m < 500000000) \<longrightarrow>
      Update ext now (KeyMsg ''g'') m = Inr (m\<lparr>lastKey := ''g'', lastKeyAt := now\<rparr>, NoCmd))
   \<and> (searchMode m \<or> key \<noteq> ''g'' \<longrightarrow> keepsGesture m (Update ext now (KeyMsg key) m))"
proof (intro conjI impI)
  assume "\<not> searchMode m \<and> \<not> showHelp m \<and> lastKey m = ''g'' \<and> now - lastKeyAt m < 500000000"
  then show "Update ext now (KeyMsg ''g'') m
        = Inr (m\<lparr>cursor := 0, scrollOffset := 0, lastKey := [], lastKeyAt := zeroTime\<rparr>, NoCmd)"
    by (simp add: Update_def browseKey_def Sub_less_threshold ensureCursorVisible_top)
next
  assume "\<not> searchMode m \<and> \<not> (lastKey m = ''g'' \<and> now - lastKeyAt m < 500000000)"
  then show "Update ext now (KeyMsg ''g'') m = Inr (m\<lparr>lastKey := ''g'', lastKeyAt := now\<rparr>, NoCmd)"
    by (auto simp add: Update_def browseKey_def Sub_less_threshold)
next
  assume "searchMode m \<or> key \<noteq> ''g''"
  then show "keepsGesture m (Update ext now (KeyMsg key) m)"
    using other_keys_keep_gesture [of m key ext now] search_keys_keep_gesture [of m ext now key]
    by blast
qed

theorem double_press_jumps_to_top_witness:
  "\<not> searchMode demoArmed \<and> \<not> showHelp demoArmed \<and> lastKey demoArmed = ''g''
   \<and> cursor demoArmed = 3 \<and> lastKeyAt demoArmed = 1000
   \<and> Update demoExt 499999999 (KeyMsg ''g'') demoArmed
       = Inr (demoArmed\<lparr>cursor := 0, scrollOffset := 0, lastKey := [], lastKeyAt := zeroTime\<rparr>, NoCmd)
   \<and> Update demoExt 500001000 (KeyMsg ''g'') demoArmed
       = Inr (demoArmed\<lparr>lastKey := ''g'', lastKeyAt := 500001000\<rparr>, NoCmd)
   \<and> Update demoExt 499999999 (KeyMsg ''g'') (demoArmed\<lparr>lastKey := [], lastKeyAt := zeroTime\<rparr>)
       = Inr (demoArmed\<lparr>lastKey := ''g'', lastKeyAt := 499999999\<rparr>, NoCmd)
   \<and> keepsGesture demoArmed (Update demoExt 499999999 (KeyMsg ''k'') demoArmed)"
proof -
  have a: "\<not> searchMode demoArmed" "\<not> showHelp demoArmed" "lastKey demoArmed = ''g''"
    "cursor demoArmed = 3" "lastKeyAt demoArmed = 1000"
    by (simp_all add: demoArmed_def demoModel_def NewModel_def)
  have k: "''k'' \<noteq> ''g''" by simp
  have j: "Update demoExt 499999999 (KeyMsg ''g'') demoArmed
       = Inr (demoArmed\<lparr>cursor := 0, scrollOffset := 0, lastKey := [], lastKeyAt := zeroTime\<rparr>, NoCmd)"
    using double_press_jumps_to_top [of demoArmed 499999999 demoExt "''k''"] a by simp
  have l: "Update demoExt 500001000 (KeyMsg ''g'') demoArmed
       = Inr (demoArmed\<lparr>lastKey := ''g'', lastKeyAt := 500001000\<rparr>, NoCmd)"
    using double_press_jumps_to_top [of demoArmed 500001000 demoExt "''k''"] a by simp
  have t: "Update demoExt 499999999 (KeyMsg ''g'') (demoArmed\<lparr>lastKey := [], lastKeyAt := zeroTime\<rparr>)
       = Inr (demoArmed\<lparr>lastKey := ''g'', lastKeyAt := 499999999\<rparr>, NoCmd)"
    using double_press_jumps_to_top
            [of "demoArmed\<lparr>lastKey := [], lastKeyAt := zeroTime\<rparr>" 499999999 demoExt "''k''"] a
    by simp
  have o: "keepsGesture demoArmed (Update demoExt 499999999 (KeyMsg ''k'') demoArmed)"
    using double_press_jumps_to_top [of demoArmed 499999999 demoExt "''k''"] k by blast
  show ?thesis using a j l t o by simp
qed

subsection \<open>Clearing the query\<close>

lemma toggleEndpoint_content:
  "toggleEndpoint eps c es = Inr (Some es') \<Longrightarrow>
   map (\<lambda>e. (path e, endpoint.method e, endpoint.op e)) es'
     = map (\<lambda>e. (path e, endpoint.method e, endpoint.op e)) es"
  by (induction es arbitrary: es') (auto split: sum.splits if_splits option.splits)

lemma toggleComponent_content:
  "toggleComponent comps c es = Inr (Some es') \<Longrightarrow>
   map (\<lambda>c. (component.name c, compType c, description c, details c)) es'
     = map (\<lambda>c. (component.name c, compType c, description c, details c)) es"
  by (induction es arbitrary: es') (auto split: sum.splits if_splits option.splits)

lemma toggleWebhook_content:
  "toggleWebhook hooks c es = Inr (Some es') \<Longrightarrow>
   map (\<lambda>h. (webhook.name h, webhook.method h, webhook.op h)) es'
     = map (\<lambda>h. (webhook.name h, webhook.method h, webhook.op h)) es"
  by (induction es arbitrary: es') (auto split: sum.splits if_splits option.splits)

lemma masterContent_filterItems: "masterContent (filterItems m) = masterContent m"
  by (simp add: masterContent_def filterItems_frame)

lemma toggleFold_master: "toggleFold m = Inr m' \<Longrightarrow> masterContent m' = masterContent m"
  by (auto simp add: toggleFold_def Let_def masterContent_filterItems
           split: viewMode.splits if_splits sum.splits option.splits
           dest: toggleEndpoint_content toggleComponent_content toggleWebhook_content)
     (auto simp add: masterContent_def
           dest: toggleEndpoint_content toggleComponent_content toggleWebhook_content)

lemma showCommand_master: "showCommand ext m = Inr m' \<Longrightarrow> masterContent m' = masterContent m"
  by (auto simp add: showCommand_def Let_def masterContent_def
           split: viewMode.splits if_splits sum.splits)

lemma ensureCursorVisible_master:
  "ensureCursorVisible ext m = Inr m' \<Longrightarrow> masterContent m' = masterContent m"
  by (drule ensureCursorVisible_frame, erule ssubst) (simp add: masterContent_def)

lemma keepsMaster_Inr: "keepsMaster m (Inr (m', c)) \<longleftrightarrow> masterContent m' = masterContent m"
  by (simp add: keepsMaster_def)

lemma keepsMaster_ensure:
  "masterContent m1 = masterContent m \<Longrightarrow> keepsMaster m (returnNil (ensureCursorVisible ext m1))"
  by (auto simp add: keepsMaster_def returnNil_def split: sum.splits
           dest: ensureCursorVisible_master)

lemma keepsMaster_toggle: "keepsMaster m (returnNil (toggleFold m))"
  by (auto simp add: keepsMaster_def returnNil_def split: sum.splits dest: toggleFold_master)

lemma keepsMaster_command: "keepsMaster m (returnNil (showCommand ext m))"
  by (auto simp add: keepsMaster_def returnNil_def split: sum.splits dest: showCommand_master)

lemma masterContent_updates:
  "masterContent (m\<lparr>cursor := c\<rparr>) = masterContent m"
  "masterContent (m\<lparr>scrollOffset := s\<rparr>) = masterContent m"
  "masterContent (m\<lparr>mode := v\<rparr>) = masterContent m"
  "masterContent (m\<lparr>showHelp := b\<rparr>) = masterContent m"
  "masterContent (m\<lparr>showCurl := b\<rparr>) = masterContent m"
  "masterContent (m\<lparr>searchMode := b\<rparr>) = masterContent m"
  "masterContent (m\<lparr>searchInput := ti\<rparr>) = masterContent m"
  "masterContent (m\<lparr>lastKey := k\<rparr>) = masterContent m"
  "masterContent (m\<lparr>lastKeyAt := t\<rparr>) = masterContent m"
  "masterContent (m\<lparr>width := w\<rparr>) = masterContent m"
  "masterContent (m\<lparr>height := h\<rparr>) = masterContent m"
  by (simp_all add: masterContent_def)

lemma Update_keeps_master: "keepsMaster m (Update ext now ms m)"
proof (cases ms)
  case (WindowSizeMsg w h)
  then show ?thesis by (simp add: Update_def keepsMaster_Inr masterContent_updates)
next
  case (KeyMsg key)
  show ?thesis
  proof (cases "searchMode m")
    case True
    with KeyMsg show ?thesis
      by (simp add: Update_def searchKey_def keepsMaster_Inr masterContent_updates
            masterContent_filterItems)
  next
    case False
    from False KeyMsg show ?thesis
      by (simp add: Update_def browseKey_def Let_def keepsMaster_Inr keepsMaster_ensure
            ensureCursorVisible_top
            keepsMaster_toggle keepsMaster_command masterContent_updates
            masterContent_filterItems)
  qed
next
  case OtherMsg
  then show ?thesis by (simp add: Update_def keepsMaster_Inr)
qed

lemma run_keeps_master: "run ext evs m0 = Inr m \<Longrightarrow> masterContent m = masterContent m0"
proof (induction evs arbitrary: m0)
  case Nil
  then show ?case by simp
next
  case (Cons ev evs)
  from Update_keeps_master [of m0 ext "fst ev" "snd ev"] Cons show ?case
    by (auto simp add: keepsMaster_def split: sum.splits if_splits)
qed

text \<open>
  C8. After any session, clearing the query (escape in search mode, an edit in search mode
  that leaves the query empty, or opening the search line anew) makes each active collection
  the master collection itself. The clearing step
  leaves the master collections as they were, fold flags included, and their content and
  order are those of the start of the session: only fold flags have changed.
\<close>

theorem clearing_query_restores_master:
  assumes "run ext evs m0 = Inr m"
    and "(searchMode m \<and> key = ''esc'')
       \<or> (searchMode m \<and> key \<noteq> ''esc'' \<and> key \<noteq> ''ctrl+c'' \<and> key \<noteq> ''enter''
            \<and> Value (inputUpdate ext key (searchInput m)) = [])
       \<or> (\<not> searchMode m \<and> \<not> showHelp m \<and> key = ''/'')"
  shows "\<exists>m' c. Update ext now (KeyMsg key) m = Inr (m', c)
     \<and> Value (searchInput m') = []
     \<and> getActiveEndpoints m' = endpoints m'
     \<and> getActiveComponents m' = components m'
     \<and> getActiveWebhooks m' = webhooks m'
     \<and> endpoints m' = endpoints m \<and> components m' = components m \<and> webhooks m' = webhooks m
     \<and> masterContent m' = masterContent m0"
proof -
  have c: "masterContent m = masterContent m0"
    using assms(1) by (rule run_keeps_master)
  from assms(2) consider (esc) "searchMode m \<and> key = ''esc''"
    | (edit) "searchMode m \<and> key \<noteq> ''esc'' \<and> key \<noteq> ''ctrl+c'' \<and> key \<noteq> ''enter''
            \<and> Value (inputUpdate ext key (searchInput m)) = []"
    | (slash) "\<not> searchMode m \<and> \<not> showHelp m \<and> key = ''/''"
    by blast
  then show ?thesis
  proof cases
    case esc
    then show ?thesis using c
      by (simp add: Update_def searchKey_def filterItems_frame SetValue_def
            getActiveEndpoints_def getActiveComponents_def getActiveWebhooks_def
            masterContent_filterItems masterContent_updates)
  next
    case edit
    then show ?thesis using c
      by (simp add: Update_def searchKey_def filterItems_frame
            getActiveEndpoints_def getActiveComponents_def getActiveWebhooks_def
            masterContent_filterItems masterContent_updates)
  next
    case slash
    then show ?thesis using c
      by (simp add: Update_def browseKey_def filterItems_frame SetValue_def Focus_def
            getActiveEndpoints_def getActiveComponents_def getActiveWebhooks_def
            masterContent_filterItems masterContent_updates)
  qed
qed

lemma demoUnfolded_reached:
  "run demoExt [(0, KeyMsg ''/''), (1, KeyMsg ''p''), (2, KeyMsg ''enter''), (3, KeyMsg '' '')]
     demoModel = Inr demoUnfolded"
  by code_simp

theorem clearing_query_restores_master_witness:
  "run demoExt [(0, KeyMsg ''/''), (1, KeyMsg ''p''), (2, KeyMsg ''enter''), (3, KeyMsg '' '')]
     demoModel = Inr demoUnfolded
   \<and> \<not> searchMode demoUnfolded \<and> \<not> showHelp demoUnfolded
   \<and> map path (getActiveEndpoints demoUnfolded) = [''/pets'']
   \<and> (\<exists>m' c. Update demoExt 4 (KeyMsg ''/'') demoUnfolded = Inr (m', c)
        \<and> map path (getActiveEndpoints m') = [''/users'', ''/pets'', ''/orders'', ''/items'']
        \<and> map endpoint.folded (getActiveEndpoints m') = [True, False, True, True]
        \<and> masterContent m' = masterContent demoModel)"
proof -
  have r: "run demoExt [(0, KeyMsg ''/''), (1, KeyMsg ''p''), (2, KeyMsg ''enter''),
                        (3, KeyMsg '' '')] demoModel = Inr demoUnfolded"
    by (rule demoUnfolded_reached)
  have s: "\<not> searchMode demoUnfolded" "\<not> showHelp demoUnfolded"
    "map path (getActiveEndpoints demoUnfolded) = [''/pets'']"
    "map path (endpoints demoUnfolded) = [''/users'', ''/pets'', ''/orders'', ''/items'']"
    "map endpoint.folded (endpoints demoUnfolded) = [True, False, True, True]"
    by (simp_all add: demoUnfolded_def demoModel_def NewModel_def getActiveEndpoints_def
          demoEndpoint_def)
  from clearing_query_restores_master [OF r, of "''/''" 4] s(1,2)
  obtain m' c where "Update demoExt 4 (KeyMsg ''/'') demoUnfolded = Inr (m', c)"
    and "getActiveEndpoints m' = endpoints m'" and "endpoints m' = endpoints demoUnfolded"
    and "masterContent m' = masterContent demoModel"
    by auto
  then show ?thesis using r s by auto
qed

subsection \<open>The example-command generator\<close>

lemma demoPost_headers:
  "curlHeaders demoPost demoSecuredDoc
     = [''Content-Type'' \<mapsto> ''application/json'', ''Authorization'' \<mapsto> ''Bearer YOUR_TOKEN'']"
  by (simp add: curlHeaders_def demoPost_def demoSecuredOp_def demoSecuredDoc_def
        requirementHeader_def schemeHeader_def)

lemma demoPost_body: "generateExampleJSON (Some demoBodySchema) demoSecuredDoc 0
     = ''{ '' @ [DQ] @ ''name'' @ [DQ] @ '': '' @ [DQ] @ ''string'' @ [DQ] @ '' }''"
  by code_simp

lemma demoPost_fields:
  "endpoint.method demoPost = ''POST''" "path demoPost = ''/users''"
  "RequestBody (endpoint.op demoPost)
     = Some \<lparr>Content = Some [(''application/json'', \<lparr>Schema = Some (Some demoBodySchema)\<rparr>)]\<rparr>"
  "Servers demoSecuredDoc = [\<lparr>URL = ''https://api.test''\<rparr>]"
  by (simp_all add: demoPost_def demoSecuredOp_def demoSecuredDoc_def)

text \<open>With at most one header the run time has no choice, and the command is determined.\<close>

lemma rangeOrder_unique:
  assumes "rangeOrder h o1" and "rangeOrder h o2" and "card (dom h) \<le> 1"
  shows "o1 = o2"
proof -
  from assms have l: "length o1 \<le> 1" "length o2 \<le> 1" and s: "set o1 = set o2"
    by (auto simp add: rangeOrder_def distinct_card [symmetric])
  then show ?thesis
    by (cases o1; cases o2) auto
qed

text \<open>
  C9. The code at the failing input: the header map of \<open>demoPost\<close> has the two keys
  \<open>Content-Type\<close> and \<open>Authorization\<close>; the \<open>range\<close> loop may visit them in either order,
  and the two orders give two different commands for the same endpoint and document.
\<close>

theorem generateCurl_depends_on_range_order:
  "rangeOrder (curlHeaders demoPost demoSecuredDoc) [''Content-Type'', ''Authorization'']
   \<and> rangeOrder (curlHeaders demoPost demoSecuredDoc) [''Authorization'', ''Content-Type'']
   \<and> generateCurl [''Content-Type'', ''Authorization''] demoPost demoSecuredDoc
       = ''curl -X POST '' @ [SQ] @ ''https://api.test/users'' @ [SQ]
         @ '' '' @ [BS, NL] @ ''  -H '' @ [SQ] @ ''Content-Type: application/json'' @ [SQ]
         @ '' '' @ [BS, NL] @ ''  -H '' @ [SQ] @ ''Authorization: Bearer YOUR_TOKEN'' @ [SQ]
         @ '' '' @ [BS, NL] @ ''  -d '' @ [SQ]
         @ ''{ '' @ [DQ] @ ''name'' @ [DQ] @ '': '' @ [DQ] @ ''string'' @ [DQ] @ '' }'' @ [SQ]
   \<and> generateCurl [''Authorization'', ''Content-Type''] demoPost demoSecuredDoc
       = ''curl -X POST '' @ [SQ] @ ''https://api.test/users'' @ [SQ]
         @ '' '' @ [BS, NL] @ ''  -H '' @ [SQ] @ ''Authorization: Bearer YOUR_TOKEN'' @ [SQ]
         @ '' '' @ [BS, NL] @ ''  -H '' @ [SQ] @ ''Content-Type: application/json'' @ [SQ]
         @ '' '' @ [BS, NL] @ ''  -d '' @ [SQ]
         @ ''{ '' @ [DQ] @ ''name'' @ [DQ] @ '': '' @ [DQ] @ ''string'' @ [DQ] @ '' }'' @ [SQ]
   \<and> generateCurl [''Content-Type'', ''Authorization''] demoPost demoSecuredDoc
       \<noteq> generateCurl [''Authorization'', ''Content-Type''] demoPost demoSecuredDoc"
proof -
  have o: "rangeOrder (curlHeaders demoPost demoSecuredDoc) [''Content-Type'', ''Authorization'']"
    "rangeOrder (curlHeaders demoPost demoSecuredDoc) [''Authorization'', ''Content-Type'']"
    by (auto simp add: demoPost_headers rangeOrder_def)
  have a: "generateCurl [''Content-Type'', ''Authorization''] demoPost demoSecuredDoc
       = ''curl -X POST '' @ [SQ] @ ''https://api.test/users'' @ [SQ]
         @ '' '' @ [BS, NL] @ ''  -H '' @ [SQ] @ ''Content-Type: application/json'' @ [SQ]
         @ '' '' @ [BS, NL] @ ''  -H '' @ [SQ] @ ''Authorization: Bearer YOUR_TOKEN'' @ [SQ]
         @ '' '' @ [BS, NL] @ ''  -d '' @ [SQ]
         @ ''{ '' @ [DQ] @ ''name'' @ [DQ] @ '': '' @ [DQ] @ ''string'' @ [DQ] @ '' }'' @ [SQ]"
    by (simp add: generateCurl_def demoPost_headers demoPost_body demoPost_fields)
  have b: "generateCurl [''Authorization'', ''Content-Type''] demoPost demoSecuredDoc
       = ''curl -X POST '' @ [SQ] @ ''https://api.test/users'' @ [SQ]
         @ '' '' @ [BS, NL] @ ''  -H '' @ [SQ] @ ''Authorization: Bearer YOUR_TOKEN'' @ [SQ]
         @ '' '' @ [BS, NL] @ ''  -H '' @ [SQ] @ ''Content-Type: application/json'' @ [SQ]
         @ '' '' @ [BS, NL] @ ''  -d '' @ [SQ]
         @ ''{ '' @ [DQ] @ ''name'' @ [DQ] @ '': '' @ [DQ] @ ''string'' @ [DQ] @ '' }'' @ [SQ]"
    by (simp add: generateCurl_def demoPost_headers demoPost_body demoPost_fields)
  have d: "generateCurl [''Content-Type'', ''Authorization''] demoPost demoSecuredDoc
       \<noteq> generateCurl [''Authorization'', ''Content-Type''] demoPost demoSecuredDoc"
    unfolding a b by simp
  show ?thesis using o a b d by blast
qed

subsection \<open>The scroll recompute\<close>

lemma itemsLen_heights: "itemsLen m = len (renderedHeights ext m)"
  by (simp add: itemsLen_def renderedHeights_def len_def split: viewMode.splits)

lemma getItemHeight_nth:
  assumes "0 \<le> i" and "i < itemsLen m"
  shows "getItemHeight ext m i = Inr (renderedHeights ext m ! nat i)"
  using assms
  by (auto simp add: getItemHeight_def itemsLen_def renderedHeights_def len_def index_def Let_def
           split: viewMode.splits)



lemma linesLoop_sum:
  assumes "0 \<le> i"
  shows "linesLoop ext m (itemsLen m) i acc
     = Inr (acc + sum_list (take (nat (cursor m + 1 - i)) (drop (nat i) (renderedHeights ext m))))"
  using assms
proof (induction ext m "itemsLen m" i acc rule: linesLoop.induct)
  case (1 ext m i acc)
  let ?hs = "renderedHeights ext m"
  show ?case
  proof (cases "i \<le> cursor m \<and> i < itemsLen m")
    case True
    then have h: "getItemHeight ext m i = Inr (?hs ! nat i)"
      using "1.prems" by (simp add: getItemHeight_nth)
    from True "1.prems" have l: "nat i < length ?hs"
      by (simp add: itemsLen_heights [of m ext] len_def nat_less_iff)
    have d: "drop (nat i) ?hs = ?hs ! nat i # drop (Suc (nat i)) ?hs"
      using l by (simp add: Cons_nth_drop_Suc)
    from True "1.prems" have n: "nat (cursor m + 1 - i) = Suc (nat (cursor m + 1 - (i + 1)))"
      and s: "nat (i + 1) = Suc (nat i)"
      by auto
    have "linesLoop ext m (itemsLen m) i acc
        = linesLoop ext m (itemsLen m) (i + 1) (acc + ?hs ! nat i)"
      using True h by (subst linesLoop.simps) simp
    also have "\<dots> = Inr (acc + ?hs ! nat i
        + sum_list (take (nat (cursor m + 1 - (i + 1))) (drop (nat (i + 1)) ?hs)))"
      using "1.hyps" [OF True h] "1.prems" by simp
    finally show ?thesis
      by (simp add: d n s)
  next
    case False
    then have "nat (cursor m + 1 - i) = 0 \<or> length ?hs \<le> nat i"
      using "1.prems" by (simp add: itemsLen_heights [of m ext] len_def) linarith
    then have z: "sum_list (take (nat (cursor m + 1 - i)) (drop (nat i) ?hs)) = 0"
      by auto
    have e: "linesLoop ext m (itemsLen m) i acc = Inr acc"
      using False by (subst linesLoop.simps) auto
    show ?thesis
      unfolding e z by simp
  qed
qed

lemma linesLoop_window:
  assumes "0 \<le> s"
  shows "linesLoop ext m (itemsLen m) s (if s > 0 then 1 else 0)
     = Inr (windowLines (renderedHeights ext m) s (cursor m))"
  using linesLoop_sum [OF assms] by (simp add: windowLines_def)

text \<open>
  The scan returns the first offset from \<open>s\<close> up to the cursor whose window fits, and
  \<open>None\<close> when there is none.
\<close>

lemma scrollScan_first:
  assumes "0 \<le> s"
  shows "\<exists>r. scrollScan ext m (itemsLen m) (calculateContentHeight (height m)) s = Inr r
     \<and> (case r of
           None \<Rightarrow> \<forall>t. s \<le> t \<and> t \<le> cursor m \<longrightarrow> \<not> fits ext m t
         | Some u \<Rightarrow> s \<le> u \<and> u \<le> cursor m \<and> fits ext m u
                     \<and> (\<forall>t. s \<le> t \<and> t < u \<longrightarrow> \<not> fits ext m t))"
  using assms
proof (induction ext m "itemsLen m" "calculateContentHeight (height m)" s rule: scrollScan.induct)
  case (1 ext m s)
  let ?ch = "calculateContentHeight (height m)"
  have w: "linesLoop ext m (itemsLen m) s (if s > 0 then 1 else 0)
     = Inr (windowLines (renderedHeights ext m) s (cursor m))"
    using "1.prems" by (rule linesLoop_window)
  show ?case
  proof (cases "s \<le> cursor m")
    case False
    have e: "scrollScan ext m (itemsLen m) ?ch s = Inr None"
      using False by (subst scrollScan.simps) simp
    have "\<forall>t. s \<le> t \<and> t \<le> cursor m \<longrightarrow> \<not> fits ext m t"
      using False by auto
    then show ?thesis
      unfolding e by simp
  next
    case True
    show ?thesis
    proof (cases "fits ext m s")
      case f: True
      have e: "scrollScan ext m (itemsLen m) ?ch s = Inr (Some s)"
        using True w f by (subst scrollScan.simps) (simp add: fits_def)
      have "\<forall>t. s \<le> t \<and> t < s \<longrightarrow> \<not> fits ext m t"
        by auto
      then show ?thesis
        unfolding e using True f by simp
    next
      case f: False
      then have n: "\<not> windowLines (renderedHeights ext m) s (cursor m) \<le> ?ch"
        by (simp add: fits_def)
      have e: "scrollScan ext m (itemsLen m) ?ch s = scrollScan ext m (itemsLen m) ?ch (s + 1)"
        using True w n by (subst scrollScan.simps) simp
      have "0 \<le> s + 1"
        using "1.prems" by simp
      from "1.hyps" [OF True w n this]
      obtain r where r: "scrollScan ext m (itemsLen m) ?ch (s + 1) = Inr r"
        and c: "case r of
           None \<Rightarrow> \<forall>t. s + 1 \<le> t \<and> t \<le> cursor m \<longrightarrow> \<not> fits ext m t
         | Some u \<Rightarrow> s + 1 \<le> u \<and> u \<le> cursor m \<and> fits ext m u
                     \<and> (\<forall>t. s + 1 \<le> t \<and> t < u \<longrightarrow> \<not> fits ext m t)"
        by blast
      show ?thesis
      proof (cases r)
        case None
        with c have a: "\<And>t. s + 1 \<le> t \<Longrightarrow> t \<le> cursor m \<Longrightarrow> \<not> fits ext m t"
          by simp
        have "\<forall>t. s \<le> t \<and> t \<le> cursor m \<longrightarrow> \<not> fits ext m t"
        proof (intro allI impI)
          fix t
          assume t: "s \<le> t \<and> t \<le> cursor m"
          show "\<not> fits ext m t"
          proof (cases "t = s")
            case True
            with f show ?thesis by simp
          next
            case False
            with t have "s + 1 \<le> t" by simp
            with t show ?thesis by (simp add: a)
          qed
        qed
        then show ?thesis
          unfolding e r None by simp
      next
        case (Some u)
        with c have u: "s + 1 \<le> u" "u \<le> cursor m" "fits ext m u"
          and a: "\<And>t. s + 1 \<le> t \<Longrightarrow> t < u \<Longrightarrow> \<not> fits ext m t"
          by simp_all
        have "\<forall>t. s \<le> t \<and> t < u \<longrightarrow> \<not> fits ext m t"
        proof (intro allI impI)
          fix t
          assume t: "s \<le> t \<and> t < u"
          show "\<not> fits ext m t"
          proof (cases "t = s")
            case True
            with f show ?thesis by simp
          next
            case False
            with t have "s + 1 \<le> t" by simp
            with t show ?thesis by (simp add: a)
          qed
        qed
        moreover have "s \<le> u"
          using u(1) by simp
        ultimately show ?thesis
          unfolding e r Some using u(2,3) by simp
      qed
    qed
  qed
qed



lemma clampScroll_id: "0 \<le> scrollOffset m \<Longrightarrow> clampScroll m = m"
  by (simp add: clampScroll_def)

text \<open>The recompute for a cursor below the first item and not above the scroll offset.\<close>

lemma ensureCursorVisible_below:
  assumes "0 \<le> scrollOffset m" and "0 < cursor m" and "cursor m < itemsLen m"
    and "scrollOffset m \<le> cursor m"
  shows "ensureCursorVisible ext m =
     (if fits ext m (scrollOffset m) then Inr m
      else (case scrollScan ext m (itemsLen m) (calculateContentHeight (height m))
                  (scrollOffset m + 1) of
              Inl p \<Rightarrow> Inl p
            | Inr None \<Rightarrow> Inr m
            | Inr (Some u) \<Rightarrow> Inr (clampScroll (m\<lparr>scrollOffset := u\<rparr>))))"
proof -
  have l: "linesLoop ext m (itemsLen m) (scrollOffset m) 0
     = Inr (sum_list (take (nat (cursor m + 1 - scrollOffset m))
                           (drop (nat (scrollOffset m)) (renderedHeights ext m))))"
    using linesLoop_sum [OF assms(1), of ext m 0] by simp
  show ?thesis
    using assms
    by (simp add: ensureCursorVisible_def l Let_def fits_def windowLines_def clampScroll_id
             split: option.splits sum.splits)
qed





lemma windowLines_single:
  assumes "0 \<le> c" and "c < int (length hs)"
  shows "windowLines hs c c = hs ! nat c + (if c > 0 then 1 else 0)"
proof -
  from assms have "nat c < length hs" by simp
  then have "drop (nat c) hs = hs ! nat c # drop (Suc (nat c)) hs"
    by (simp add: Cons_nth_drop_Suc)
  then show ?thesis
    by (simp add: windowLines_def)
qed

text \<open>
  C2, as the claim states it, fails in its own scenario: in a terminal of 18 lines the
  content height is 10; the cursor goes down to item 5, which is unfolded to 10 lines, one
  step up and down again. The recompute finds no offset whose window fits, since even item
  5 alone needs 11 lines with the indicator, and leaves the offset at 0: the window from
  item 0 to item 5 is 15 lines, so only the first 5 lines of item 5 are inside.
\<close>

theorem tall_item_clipped_counterexample:
  "map_sum id (\<lambda>m. (cursor m, scrollOffset m, calculateContentHeight (height m),
                     renderedHeights tallExt m,
                     windowLines (renderedHeights tallExt m) (scrollOffset m) (cursor m)))
     (run tallExt
        [(0, WindowSizeMsg 80 18), (1, KeyMsg ''j''), (2, KeyMsg ''j''), (3, KeyMsg ''j''),
         (4, KeyMsg ''j''), (5, KeyMsg ''j''), (6, KeyMsg ''enter''), (7, KeyMsg ''k''),
         (8, KeyMsg ''j'')] demoEight)
   = Inr (5, 0, 10, [1, 1, 1, 1, 1, 10, 1, 1], 15)"
  by code_simp

text \<open>
  C2, amended. Let the scroll offset be at least 0 and the cursor point into the active
  collection. If the rendered height of the item under the cursor, plus the one line of the
  indicator above unless it is the first item, is at most the content height, then after
  the recompute the lines from the item at the scroll offset to the end of the item under
  the cursor, indicator included, are at most the content height: the item under the cursor
  is not clipped from below. In the scenario this needs a content height of 11 for the item
  of 10 lines.
\<close>

theorem cursor_item_not_clipped:
  assumes "0 \<le> scrollOffset m" and "0 \<le> cursor m" and "cursor m < itemsLen m"
    and "renderedHeights ext m ! nat (cursor m) + (if cursor m = 0 then 0 else 1)
           \<le> calculateContentHeight (height m)"
  shows "\<exists>s. ensureCursorVisible ext m = Inr (m\<lparr>scrollOffset := s\<rparr>)
     \<and> 0 \<le> s \<and> s \<le> cursor m
     \<and> windowLines (renderedHeights ext m) s (cursor m) \<le> calculateContentHeight (height m)"
proof -
  let ?off = "scrollOffset m" and ?c = "cursor m" and ?hs = "renderedHeights ext m"
  let ?ch = "calculateContentHeight (height m)"
  have len: "?c < int (length ?hs)"
    using assms(3) by (simp add: itemsLen_heights [of m ext] len_def)
  have single: "windowLines ?hs ?c ?c \<le> ?ch"
    using windowLines_single [OF assms(2) len] assms(2,4) by (cases "?c = 0") auto
  consider (top) "?c = 0" | (above) "0 < ?c" "?c < ?off"
    | (keep) "0 < ?c" "?off \<le> ?c" "fits ext m ?off"
    | (scan) "0 < ?c" "?off \<le> ?c" "\<not> fits ext m ?off"
    using assms(2) by linarith
  then show ?thesis
  proof cases
    case top
    have "ensureCursorVisible ext m = Inr (m\<lparr>scrollOffset := 0\<rparr>)"
      using top by (simp add: ensureCursorVisible_def)
    then show ?thesis
      by (intro exI [of _ 0] conjI) (use top single in simp_all)
  next
    case above
    have "ensureCursorVisible ext m = Inr (m\<lparr>scrollOffset := ?c\<rparr>)"
      using above assms(3) by (simp add: ensureCursorVisible_def)
    then show ?thesis
      by (intro exI [of _ ?c] conjI) (use above single in simp_all)
  next
    case keep
    have "ensureCursorVisible ext m = Inr (m\<lparr>scrollOffset := ?off\<rparr>)"
      using ensureCursorVisible_below [OF assms(1) keep(1) assms(3) keep(2), of ext] keep(3)
      by simp
    then show ?thesis
      by (intro exI [of _ ?off] conjI) (use keep assms(1) in \<open>simp_all add: fits_def\<close>)
  next
    case scan
    have e: "ensureCursorVisible ext m =
       (case scrollScan ext m (itemsLen m) ?ch (?off + 1) of
          Inl p \<Rightarrow> Inl p
        | Inr None \<Rightarrow> Inr m
        | Inr (Some u) \<Rightarrow> Inr (clampScroll (m\<lparr>scrollOffset := u\<rparr>)))"
      using ensureCursorVisible_below [OF assms(1) scan(1) assms(3) scan(2), of ext] scan(3)
      by simp
    have lt: "?off < ?c"
    proof (rule ccontr)
      assume "\<not> ?off < ?c"
      with scan(2) have "?off = ?c" by simp
      with single scan(3) show False by (simp add: fits_def)
    qed
    have "0 \<le> ?off + 1"
      using assms(1) by simp
    from scrollScan_first [OF this, of ext m]
    obtain r where r: "scrollScan ext m (itemsLen m) ?ch (?off + 1) = Inr r"
      and c: "case r of
           None \<Rightarrow> \<forall>t. ?off + 1 \<le> t \<and> t \<le> ?c \<longrightarrow> \<not> fits ext m t
         | Some u \<Rightarrow> ?off + 1 \<le> u \<and> u \<le> ?c \<and> fits ext m u
                     \<and> (\<forall>t. ?off + 1 \<le> t \<and> t < u \<longrightarrow> \<not> fits ext m t)"
      by blast
    show ?thesis
    proof (cases r)
      case None
      with c have "?off + 1 \<le> ?c \<and> ?c \<le> ?c \<longrightarrow> \<not> fits ext m ?c"
        by simp
      with lt single show ?thesis
        by (simp add: fits_def)
    next
      case (Some u)
      with c have u: "?off < u" "u \<le> ?c" "fits ext m u"
        by simp_all
      have "ensureCursorVisible ext m = Inr (m\<lparr>scrollOffset := u\<rparr>)"
        unfolding e r Some using u(1) assms(1) by (simp add: clampScroll_id)
      then show ?thesis
        by (intro exI [of _ u] conjI) (use u assms(1) in \<open>simp_all add: fits_def\<close>)
    qed
  qed
qed

lemma demoTall_recompute:
  "ensureCursorVisible tallExt (demoTall 19) = Inr ((demoTall 19)\<lparr>scrollOffset := 5\<rparr>)"
  by code_simp

theorem cursor_item_not_clipped_witness:
  "0 \<le> scrollOffset (demoTall 19) \<and> cursor (demoTall 19) = 5 \<and> itemsLen (demoTall 19) = 8
   \<and> renderedHeights tallExt (demoTall 19) = [1, 1, 1, 1, 1, 10, 1, 1]
   \<and> calculateContentHeight (height (demoTall 19)) = 11
   \<and> ensureCursorVisible tallExt (demoTall 19) = Inr ((demoTall 19)\<lparr>scrollOffset := 5\<rparr>)
   \<and> windowLines (renderedHeights tallExt (demoTall 19)) 5 5 \<le> 11"
proof -
  have hs: "renderedHeights tallExt (demoTall 19) = [1, 1, 1, 1, 1, 10, 1, 1]"
    by code_simp
  have v: "0 \<le> scrollOffset (demoTall 19)" "cursor (demoTall 19) = 5"
    "itemsLen (demoTall 19) = 8" "calculateContentHeight (height (demoTall 19)) = 11"
    by (simp_all add: demoTall_def demoEight_def NewModel_def itemsLen_def
          getActiveEndpoints_def len_def calculateContentHeight_def headerApproxLines_def
          footerApproxLines_def layoutBuffer_def)
  have h: "0 \<le> cursor (demoTall 19)" "cursor (demoTall 19) < itemsLen (demoTall 19)"
    "renderedHeights tallExt (demoTall 19) ! nat (cursor (demoTall 19))
         + (if cursor (demoTall 19) = 0 then 0 else 1)
       \<le> calculateContentHeight (height (demoTall 19))"
    by (simp_all add: v hs)
  from cursor_item_not_clipped [OF v(1) h]
  obtain s where e: "ensureCursorVisible tallExt (demoTall 19) = Inr ((demoTall 19)\<lparr>scrollOffset := s\<rparr>)"
    and w: "windowLines (renderedHeights tallExt (demoTall 19)) s (cursor (demoTall 19))
              \<le> calculateContentHeight (height (demoTall 19))"
    by blast
  from e demoTall_recompute
  have "scrollOffset ((demoTall 19)\<lparr>scrollOffset := s\<rparr>)
      = scrollOffset ((demoTall 19)\<lparr>scrollOffset := 5\<rparr>)"
    by simp
  then have "s = 5" by simp
  with e w v hs show ?thesis by simp
qed

subsection \<open>The invariants of cursor and scroll offset\<close>

lemma getMaxItems_itemsLen: "getMaxItems m = itemsLen m - 1"
  by (simp add: getMaxItems_def itemsLen_def split: viewMode.splits)

lemma itemsLen_nonneg: "0 \<le> itemsLen m"
  by (simp add: itemsLen_def len_def split: viewMode.splits)

lemma ensureCursorVisible_range:
  assumes "0 \<le> scrollOffset m" and "0 \<le> cursor m" and "cursor m < itemsLen m \<or> cursor m = 0"
  shows "\<exists>s. ensureCursorVisible ext m = Inr (m\<lparr>scrollOffset := s\<rparr>) \<and> 0 \<le> s \<and> s \<le> cursor m"
proof -
  let ?off = "scrollOffset m" and ?c = "cursor m"
  consider (top) "?c = 0" | (above) "0 < ?c" "?c < ?off" | (below) "0 < ?c" "?off \<le> ?c"
    using assms(2) by linarith
  then show ?thesis
  proof cases
    case top
    have "ensureCursorVisible ext m = Inr (m\<lparr>scrollOffset := 0\<rparr>)"
      using top by (simp add: ensureCursorVisible_def)
    then show ?thesis
      by (intro exI [of _ 0] conjI) (use top in simp_all)
  next
    case above
    with assms(3) have "ensureCursorVisible ext m = Inr (m\<lparr>scrollOffset := ?c\<rparr>)"
      by (simp add: ensureCursorVisible_def)
    then show ?thesis
      by (intro exI [of _ ?c] conjI) (use above in simp_all)
  next
    case below
    with assms(3) have l: "?c < itemsLen m" by simp
    note e = ensureCursorVisible_below [OF assms(1) below(1) l below(2), of ext]
    have "0 \<le> ?off + 1"
      using assms(1) by simp
    from scrollScan_first [OF this, of ext m]
    obtain r where r: "scrollScan ext m (itemsLen m) (calculateContentHeight (height m))
                         (?off + 1) = Inr r"
      and c: "case r of
           None \<Rightarrow> \<forall>t. ?off + 1 \<le> t \<and> t \<le> ?c \<longrightarrow> \<not> fits ext m t
         | Some u \<Rightarrow> ?off + 1 \<le> u \<and> u \<le> ?c \<and> fits ext m u
                     \<and> (\<forall>t. ?off + 1 \<le> t \<and> t < u \<longrightarrow> \<not> fits ext m t)"
      by blast
    show ?thesis
    proof (cases "fits ext m ?off \<or> r = None")
      case True
      then have "ensureCursorVisible ext m = Inr (m\<lparr>scrollOffset := ?off\<rparr>)"
        unfolding e r by auto
      then show ?thesis
        by (intro exI [of _ ?off] conjI) (use below assms(1) in simp_all)
    next
      case False
      then obtain u where s: "r = Some u" and f: "\<not> fits ext m ?off"
        by auto
      with c have u: "?off < u" "u \<le> ?c"
        by simp_all
      have "ensureCursorVisible ext m = Inr (m\<lparr>scrollOffset := u\<rparr>)"
        unfolding e r s using f u(1) assms(1) by (simp add: clampScroll_id)
      then show ?thesis
        by (intro exI [of _ u] conjI) (use u assms(1) in simp_all)
    qed
  qed
qed

lemma itemsLen_updates:
  "itemsLen (m\<lparr>cursor := c\<rparr>) = itemsLen m"
  "itemsLen (m\<lparr>scrollOffset := s\<rparr>) = itemsLen m"
  "itemsLen (m\<lparr>showHelp := b\<rparr>) = itemsLen m"
  "itemsLen (m\<lparr>showCurl := b\<rparr>) = itemsLen m"
  "itemsLen (m\<lparr>searchMode := b\<rparr>) = itemsLen m"
  "itemsLen (m\<lparr>lastKey := k\<rparr>) = itemsLen m"
  "itemsLen (m\<lparr>lastKeyAt := t\<rparr>) = itemsLen m"
  "itemsLen (m\<lparr>curlCommand := cc\<rparr>) = itemsLen m"
  "itemsLen (m\<lparr>width := w\<rparr>) = itemsLen m"
  "itemsLen (m\<lparr>height := h\<rparr>) = itemsLen m"
  by (simp_all add: itemsLen_def getActiveEndpoints_def getActiveComponents_def
        getActiveWebhooks_def split: viewMode.splits)

lemma filteredInv_updates:
  "filteredInv (m\<lparr>cursor := c\<rparr>) = filteredInv m"
  "filteredInv (m\<lparr>scrollOffset := s\<rparr>) = filteredInv m"
  "filteredInv (m\<lparr>mode := v\<rparr>) = filteredInv m"
  "filteredInv (m\<lparr>showHelp := b\<rparr>) = filteredInv m"
  "filteredInv (m\<lparr>showCurl := b\<rparr>) = filteredInv m"
  "filteredInv (m\<lparr>searchMode := b\<rparr>) = filteredInv m"
  "filteredInv (m\<lparr>lastKey := k\<rparr>) = filteredInv m"
  "filteredInv (m\<lparr>lastKeyAt := t\<rparr>) = filteredInv m"
  "filteredInv (m\<lparr>curlCommand := cc\<rparr>) = filteredInv m"
  "filteredInv (m\<lparr>width := w\<rparr>) = filteredInv m"
  "filteredInv (m\<lparr>height := h\<rparr>) = filteredInv m"
  by (simp_all add: filteredInv_def)

lemma ToLower_empty: "ToLower s = [] \<longleftrightarrow> s = []"
  by (simp add: ToLower_def)

lemma filteredInv_filterItems: "filteredInv (filterItems m)"
  by (simp add: filteredInv_def filterItems_filtered filterItems_frame ToLower_empty)

lemma keepsInv_Inr: "keepsInv (Inr (m', c)) \<longleftrightarrow> cursorInv m' \<and> filteredInv m'"
  by (simp add: keepsInv_def)

lemma cursorInv_top: "cursorInv (m\<lparr>cursor := 0, scrollOffset := 0\<rparr>)"
  using itemsLen_nonneg [of m] by (auto simp add: cursorInv_def itemsLen_updates)

lemma keepsInv_ensure:
  assumes "0 \<le> scrollOffset m1" and "0 \<le> cursor m1"
    and "cursor m1 < itemsLen m1 \<or> cursor m1 = 0" and "filteredInv m1"
  shows "keepsInv (returnNil (ensureCursorVisible ext m1))"
proof -
  from ensureCursorVisible_range [OF assms(1-3), of ext]
  obtain s where e: "ensureCursorVisible ext m1 = Inr (m1\<lparr>scrollOffset := s\<rparr>)"
    and s: "0 \<le> s" "s \<le> cursor m1"
    by blast
  have "cursor m1 < itemsLen m1 \<or> (itemsLen m1 = 0 \<and> cursor m1 = 0)"
    using assms(3) itemsLen_nonneg [of m1] by linarith
  with s assms(4) show ?thesis
    unfolding e by (simp add: returnNil_def keepsInv_def cursorInv_def itemsLen_updates
                      filteredInv_updates)
qed

lemma index_in_range: "0 \<le> i \<Longrightarrow> i < len xs \<Longrightarrow> index xs i = Inr (xs ! nat i)"
  by (simp add: index_def len_def)

lemma keepsInv_command:
  assumes "cursorInv m" and "filteredInv m"
  shows "keepsInv (returnNil (showCommand ext m))"
proof -
  from assms(1) have c: "0 \<le> cursor m"
    by (simp add: cursorInv_def)
  show ?thesis
    using assms c
    by (simp add: showCommand_def Let_def returnNil_def index_in_range keepsInv_def
          cursorInv_def itemsLen_updates filteredInv_updates split: viewMode.splits)
qed

lemma toggleEndpoint_total:
  "0 \<le> c \<Longrightarrow> c < len xs \<Longrightarrow> \<exists>r. toggleEndpoint xs c es = Inr r"
  by (induction es) (auto simp add: index_in_range split: sum.splits option.splits)

lemma toggleEndpoint_filter_length:
  "toggleEndpoint xs c es = Inr (Some es') \<Longrightarrow>
   length (filter (endpointMatches q) es') = length (filter (endpointMatches q) es)"
  by (induction es arbitrary: es')
     (auto simp add: endpointMatches_def split: sum.splits if_splits option.splits)

lemma toggleEndpoint_length:
  assumes "toggleEndpoint xs c es = Inr (Some es')"
  shows "length es' = length es"
  using toggleEndpoint_content [OF assms] by (rule map_eq_imp_length_eq)

lemma toggleFold_endpoints_inv:
  assumes "cursorInv m" and "filteredInv m" and "mode m = viewEndpoints"
  shows "keepsInv (returnNil (toggleFold m))"
proof (cases "cursor m < len (getActiveEndpoints m)")
  case False
  with assms show ?thesis
    by (simp add: toggleFold_def returnNil_def keepsInv_def)
next
  case True
  from assms(1) have "0 \<le> cursor m"
    by (simp add: cursorInv_def)
  from toggleEndpoint_total [OF this True]
  obtain r where r: "toggleEndpoint (getActiveEndpoints m) (cursor m) (endpoints m) = Inr r"
    by blast
  show ?thesis
  proof (cases r)
    case None
    with r True assms show ?thesis
      by (simp add: toggleFold_def returnNil_def keepsInv_def)
  next
    case (Some es')
    let ?m' = "filterItems (m\<lparr>endpoints := es'\<rparr>)"
    have t: "toggleFold m = Inr ?m'"
      using r Some True assms(3) by (simp add: toggleFold_def)
    have l: "length es' = length (endpoints m)"
      and f: "\<And>q. length (filter (endpointMatches q) es')
                  = length (filter (endpointMatches q) (endpoints m))"
      using r Some by (simp_all add: toggleEndpoint_length toggleEndpoint_filter_length)
    have "itemsLen ?m' = itemsLen m"
      using assms(2,3) l f
      by (auto simp add: itemsLen_def getActiveEndpoints_def filterItems_frame
            filterItems_filtered filteredInv_def ToLower_empty len_def)
    with assms(1) have "cursorInv ?m'"
      by (simp add: cursorInv_def filterItems_frame)
    then show ?thesis
      unfolding t by (simp add: returnNil_def keepsInv_def filteredInv_filterItems)
  qed
qed

lemma toggleComponent_total:
  "0 \<le> c \<Longrightarrow> c < len xs \<Longrightarrow> \<exists>r. toggleComponent xs c es = Inr r"
  by (induction es) (auto simp add: index_in_range split: sum.splits option.splits)

lemma toggleComponent_filter_length:
  "toggleComponent xs c es = Inr (Some es') \<Longrightarrow>
   length (filter (componentMatches q) es') = length (filter (componentMatches q) es)"
  by (induction es arbitrary: es')
     (auto simp add: componentMatches_def split: sum.splits if_splits option.splits)

lemma toggleComponent_length:
  assumes "toggleComponent xs c es = Inr (Some es')"
  shows "length es' = length es"
  using toggleComponent_content [OF assms] by (rule map_eq_imp_length_eq)

lemma toggleFold_components_inv:
  assumes "cursorInv m" and "filteredInv m" and "mode m = viewComponents"
  shows "keepsInv (returnNil (toggleFold m))"
proof (cases "cursor m < len (getActiveComponents m)")
  case False
  with assms show ?thesis
    by (simp add: toggleFold_def returnNil_def keepsInv_def)
next
  case True
  from assms(1) have "0 \<le> cursor m"
    by (simp add: cursorInv_def)
  from toggleComponent_total [OF this True]
  obtain r where r: "toggleComponent (getActiveComponents m) (cursor m) (components m) = Inr r"
    by blast
  show ?thesis
  proof (cases r)
    case None
    with r True assms show ?thesis
      by (simp add: toggleFold_def returnNil_def keepsInv_def)
  next
    case (Some es')
    let ?m' = "filterItems (m\<lparr>components := es'\<rparr>)"
    have t: "toggleFold m = Inr ?m'"
      using r Some True assms(3) by (simp add: toggleFold_def)
    have l: "length es' = length (components m)"
      and f: "\<And>q. length (filter (componentMatches q) es')
                  = length (filter (componentMatches q) (components m))"
      using r Some by (simp_all add: toggleComponent_length toggleComponent_filter_length)
    have "itemsLen ?m' = itemsLen m"
      using assms(2,3) l f
      by (auto simp add: itemsLen_def getActiveComponents_def filterItems_frame
            filterItems_filtered filteredInv_def ToLower_empty len_def)
    with assms(1) have "cursorInv ?m'"
      by (simp add: cursorInv_def filterItems_frame)
    then show ?thesis
      unfolding t by (simp add: returnNil_def keepsInv_def filteredInv_filterItems)
  qed
qed

lemma toggleWebhook_total:
  "0 \<le> c \<Longrightarrow> c < len xs \<Longrightarrow> \<exists>r. toggleWebhook xs c es = Inr r"
  by (induction es) (auto simp add: index_in_range split: sum.splits option.splits)

lemma toggleWebhook_filter_length:
  "toggleWebhook xs c es = Inr (Some es') \<Longrightarrow>
   length (filter (webhookMatches q) es') = length (filter (webhookMatches q) es)"
  by (induction es arbitrary: es')
     (auto simp add: webhookMatches_def split: sum.splits if_splits option.splits)

lemma toggleWebhook_length:
  assumes "toggleWebhook xs c es = Inr (Some es')"
  shows "length es' = length es"
  using toggleWebhook_content [OF assms] by (rule map_eq_imp_length_eq)

lemma toggleFold_webhooks_inv:
  assumes "cursorInv m" and "filteredInv m" and "mode m = viewWebhooks"
  shows "keepsInv (returnNil (toggleFold m))"
proof (cases "cursor m < len (getActiveWebhooks m)")
  case False
  with assms show ?thesis
    by (simp add: toggleFold_def returnNil_def keepsInv_def)
next
  case True
  from assms(1) have "0 \<le> cursor m"
    by (simp add: cursorInv_def)
  from toggleWebhook_total [OF this True]
  obtain r where r: "toggleWebhook (getActiveWebhooks m) (cursor m) (webhooks m) = Inr r"
    by blast
  show ?thesis
  proof (cases r)
    case None
    with r True assms show ?thesis
      by (simp add: toggleFold_def returnNil_def keepsInv_def)
  next
    case (Some es')
    let ?m' = "filterItems (m\<lparr>webhooks := es'\<rparr>)"
    have t: "toggleFold m = Inr ?m'"
      using r Some True assms(3) by (simp add: toggleFold_def)
    have l: "length es' = length (webhooks m)"
      and f: "\<And>q. length (filter (webhookMatches q) es')
                  = length (filter (webhookMatches q) (webhooks m))"
      using r Some by (simp_all add: toggleWebhook_length toggleWebhook_filter_length)
    have "itemsLen ?m' = itemsLen m"
      using assms(2,3) l f
      by (auto simp add: itemsLen_def getActiveWebhooks_def filterItems_frame
            filterItems_filtered filteredInv_def ToLower_empty len_def)
    with assms(1) have "cursorInv ?m'"
      by (simp add: cursorInv_def filterItems_frame)
    then show ?thesis
      unfolding t by (simp add: returnNil_def keepsInv_def filteredInv_filterItems)
  qed
qed

lemma keepsInv_toggle:
  assumes "cursorInv m" and "filteredInv m"
  shows "keepsInv (returnNil (toggleFold m))"
  using assms toggleFold_endpoints_inv toggleFold_components_inv toggleFold_webhooks_inv
  by (cases "mode m") simp_all

lemma cursorInv_updates:
  "cursorInv (m\<lparr>showHelp := b\<rparr>) = cursorInv m"
  "cursorInv (m\<lparr>showCurl := b\<rparr>) = cursorInv m"
  "cursorInv (m\<lparr>searchMode := b\<rparr>) = cursorInv m"
  "cursorInv (m\<lparr>lastKey := k\<rparr>) = cursorInv m"
  "cursorInv (m\<lparr>lastKeyAt := t\<rparr>) = cursorInv m"
  "cursorInv (m\<lparr>curlCommand := cc\<rparr>) = cursorInv m"
  "cursorInv (m\<lparr>width := w\<rparr>) = cursorInv m"
  "cursorInv (m\<lparr>height := h\<rparr>) = cursorInv m"
  by (simp_all add: cursorInv_def itemsLen_updates)

lemma cursorInv_reset: "cursor m = 0 \<Longrightarrow> scrollOffset m = 0 \<Longrightarrow> cursorInv m"
  using itemsLen_nonneg [of m] by (auto simp add: cursorInv_def)

lemma move_inv:
  assumes "cursorInv m" and "filteredInv m" and "0 \<le> c" and "c < itemsLen m \<or> c = 0"
  shows "keepsInv (returnNil (ensureCursorVisible ext (m\<lparr>cursor := c\<rparr>)))"
  using assms
  by (intro keepsInv_ensure) (simp_all add: cursorInv_def itemsLen_updates filteredInv_updates)

lemma up_inv:
  assumes "cursorInv m" and "filteredInv m" and "cursor m > 0"
  shows "keepsInv (returnNil (ensureCursorVisible ext (m\<lparr>cursor := cursor m - 1\<rparr>)))"
  using assms by (intro move_inv) (auto simp add: cursorInv_def)

lemma down_inv:
  assumes "cursorInv m" and "filteredInv m" and "cursor m < getMaxItems m"
  shows "keepsInv (returnNil (ensureCursorVisible ext (m\<lparr>cursor := cursor m + 1\<rparr>)))"
  using assms by (intro move_inv) (auto simp add: cursorInv_def getMaxItems_itemsLen)

lemma half_page_down_inv:
  assumes "cursorInv m" and "filteredInv m" and "itemsLen m \<noteq> 0"
  shows "keepsInv (returnNil (ensureCursorVisible ext
           (if getMaxItems m < cursor m + scrollHalfScreenLines then m\<lparr>cursor := getMaxItems m\<rparr>
            else m\<lparr>cursor := cursor m + scrollHalfScreenLines\<rparr>)))"
proof (cases "getMaxItems m < cursor m + scrollHalfScreenLines")
  case True
  have "keepsInv (returnNil (ensureCursorVisible ext (m\<lparr>cursor := getMaxItems m\<rparr>)))"
    using assms itemsLen_nonneg [of m]
    by (intro move_inv) (auto simp add: getMaxItems_itemsLen)
  with True show ?thesis by simp
next
  case False
  have "keepsInv (returnNil (ensureCursorVisible ext
           (m\<lparr>cursor := cursor m + scrollHalfScreenLines\<rparr>)))"
    using assms False
    by (intro move_inv)
       (auto simp add: getMaxItems_itemsLen cursorInv_def scrollHalfScreenLines_def)
  with False show ?thesis by simp
qed

lemma half_page_up_inv:
  assumes "cursorInv m" and "filteredInv m"
  shows "keepsInv (returnNil (ensureCursorVisible ext
           (if cursor m < max 1 (calculateContentHeight (height m) div 2) then m\<lparr>cursor := 0\<rparr>
            else m\<lparr>cursor := cursor m - max 1 (calculateContentHeight (height m) div 2)\<rparr>)))"
proof (cases "cursor m < max 1 (calculateContentHeight (height m) div 2)")
  case True
  have "keepsInv (returnNil (ensureCursorVisible ext (m\<lparr>cursor := 0\<rparr>)))"
    using assms by (intro move_inv) simp_all
  with True show ?thesis by simp
next
  case False
  have "keepsInv (returnNil (ensureCursorVisible ext
           (m\<lparr>cursor := cursor m - max 1 (calculateContentHeight (height m) div 2)\<rparr>)))"
    using assms False by (intro move_inv) (auto simp add: cursorInv_def)
  with False show ?thesis by simp
qed

lemma last_item_inv:
  assumes "cursorInv m" and "filteredInv m" and "0 \<le> getMaxItems m"
  shows "keepsInv (returnNil (ensureCursorVisible ext (m\<lparr>cursor := getMaxItems m\<rparr>)))"
  using assms by (intro move_inv) (auto simp add: getMaxItems_itemsLen)

lemma open_search_inv:
  assumes "cursorInv m" and "filteredInv m"
  shows "cursorInv (filterItems (m\<lparr>searchMode := True,
                                   searchInput := SetValue [] (Focus (searchInput m))\<rparr>))"
proof -
  let ?m' = "filterItems (m\<lparr>searchMode := True, searchInput := SetValue [] (Focus (searchInput m))\<rparr>)"
  have "itemsLen m \<le> itemsLen ?m'"
    using assms(2)
    by (auto simp add: itemsLen_def getActiveEndpoints_def getActiveComponents_def
          getActiveWebhooks_def filterItems_frame SetValue_def filteredInv_def len_def
          split: viewMode.splits)
  with assms(1) itemsLen_nonneg [of ?m'] show ?thesis
    by (auto simp add: cursorInv_def filterItems_frame)
qed

lemma commit_search_inv:
  assumes "cursorInv m" and "filteredInv m"
  shows "cursorInv (m\<lparr>searchMode := False, searchInput := Blur (searchInput m)\<rparr>)"
    and "filteredInv (m\<lparr>searchMode := False, searchInput := Blur (searchInput m)\<rparr>)"
  using assms
  by (auto simp add: cursorInv_def filteredInv_def itemsLen_def getActiveEndpoints_def
        getActiveComponents_def getActiveWebhooks_def Blur_def split: viewMode.splits)

text \<open>
  Every event keeps the two invariants and does not panic, with one exception: half a page
  down while the active collection is empty.
\<close>

lemma Update_keeps_invariant:
  assumes "cursorInv m" and "filteredInv m"
    and "\<not> (ms = KeyMsg ''ctrl+d'' \<and> \<not> searchMode m \<and> \<not> showHelp m \<and> itemsLen m = 0)"
  shows "keepsInv (Update ext now ms m)"
proof (cases ms)
  case (WindowSizeMsg w h)
  with assms show ?thesis
    by (simp add: Update_def keepsInv_Inr cursorInv_updates filteredInv_updates)
next
  case OtherMsg
  with assms show ?thesis
    by (simp add: Update_def keepsInv_Inr)
next
  case (KeyMsg key)
  show ?thesis
  proof (cases "searchMode m")
    case True
    with KeyMsg assms show ?thesis
      by (simp add: Update_def searchKey_def keepsInv_Inr cursorInv_reset filterItems_frame
            filteredInv_updates filteredInv_filterItems commit_search_inv)
  next
    case browsing: False
    show ?thesis
    proof (cases "key = ''ctrl+d''")
      case True
      show ?thesis
      proof (cases "showHelp m")
        case True
        with \<open>key = ''ctrl+d''\<close> browsing KeyMsg assms show ?thesis
          by (simp add: Update_def browseKey_def keepsInv_Inr)
      next
        case False
        with \<open>key = ''ctrl+d''\<close> browsing KeyMsg assms(3) have "itemsLen m \<noteq> 0"
          by simp
        with False \<open>key = ''ctrl+d''\<close> browsing KeyMsg assms(1,2) show ?thesis
          by (simp add: Update_def browseKey_def Let_def half_page_down_inv)
      qed
    next
      case False
      with browsing KeyMsg assms(1,2) show ?thesis
        by (simp add: Update_def browseKey_def Let_def keepsInv_Inr cursorInv_updates
              filteredInv_updates cursorInv_reset filteredInv_filterItems open_search_inv
              keepsInv_command keepsInv_toggle up_inv down_inv
              half_page_up_inv last_item_inv ensureCursorVisible_top)
    qed
  qed
qed

lemma NewModel_inv:
  "cursorInv (NewModel dc eps comps hooks)" "filteredInv (NewModel dc eps comps hooks)"
  using itemsLen_nonneg [of "NewModel dc eps comps hooks"]
  by (auto simp add: cursorInv_def filteredInv_def NewModel_def)

end
